theory Spec2Isabelle
  imports
    Main
    "HOL-Library.Sublist"
    "HOL-Library.AList"
    "HOL-Library.Char_ord"
    "HOL-Library.List_Lexorder"
begin

section \<open>Python values, dictionaries and strings\<close>

text \<open>
  The repository is Python. The dictionaries it passes around (article dictionaries,
  chunk metadata, index metadata) hold \<open>None\<close>, strings and integers; a dictionary is an
  association list in insertion order, which is the order Python iterates it in.
  Text is modelled as \<open>string\<close> with one \<open>char\<close> per character; case folding is the ASCII
  one.
\<close>

datatype pyval = PNone | PStr string | PInt int

datatype py_error = KeyError | TypeError | AttributeError | ValueError | WebDriverException
  | FetchError | ParseError | GenerationError | IndexUnavailable

type_synonym pydict = "(string \<times> pyval) list"

text \<open>\<open>d.get(key)\<close> is \<open>map_of d key\<close>; \<open>d[key] = v\<close> is \<open>AList.update key v d\<close>, which
  overwrites in place and appends a new key at the end, like a Python dictionary.\<close>

fun truthy :: "pyval \<Rightarrow> bool" where
  "truthy PNone = False"
| "truthy (PStr s) = (s \<noteq> [])"
| "truthy (PInt i) = (i \<noteq> 0)"

fun is_str :: "pyval \<Rightarrow> bool" where
  "is_str (PStr s) = True"
| "is_str v = False"

definition py_lower_char :: "char \<Rightarrow> char" where
  "py_lower_char c =
     (case map_of (zip ''ABCDEFGHIJKLMNOPQRSTUVWXYZ'' ''abcdefghijklmnopqrstuvwxyz'') c of
        Some l \<Rightarrow> l
      | None \<Rightarrow> c)"

definition py_lower :: "string \<Rightarrow> string" where
  "py_lower s = map py_lower_char s"

text \<open>Python's \<open>needle in hay\<close> on strings: a contiguous substring.\<close>

definition str_in :: "string \<Rightarrow> string \<Rightarrow> bool" where
  "str_in needle hay = sublist needle hay"

section \<open>Content validator (scraper.py)\<close>

definition FINANCIAL_KEYWORDS :: "string list" where
  "FINANCIAL_KEYWORDS =
     [''stock'', ''market'', ''nse'', ''bse'', ''sensex'', ''nifty'', ''ipo'', ''fpo'', ''equity'',
      ''shares'', ''invest'', ''trading'', ''rbi'', ''earnings'', ''quarter'', ''profit'',
      ''revenue'', ''economy'', ''gdp'', ''inflation'', ''gst'', ''finance'', ''brokerage'', ''fed'']"

text \<open>\<open>FinancialNewsScraper._is_relevant(text, title)\<close>.\<close>

definition is_relevant :: "string \<Rightarrow> string \<Rightarrow> bool" where
  "is_relevant text title =
     (if text = [] \<or> length text < 300 then False
      else if str_in ''etprime member'' (py_lower text) \<or> str_in ''subscribe to read'' (py_lower text)
        then False
      else
        let combined_text = py_lower (title @ '' '' @ text);
            found_keywords =
              sum_list (map (\<lambda>keyword. 1::int)
                (filter (\<lambda>keyword. str_in keyword combined_text) FINANCIAL_KEYWORDS))
        in found_keywords \<ge> 2)"

section \<open>Python \<open>str()\<close> and dictionary access\<close>

definition digit_char :: "nat \<Rightarrow> char" where
  "digit_char d = ''0123456789'' ! d"

function str_nat :: "nat \<Rightarrow> string" where
  "str_nat n = (if n < 10 then [digit_char n] else str_nat (n div 10) @ [digit_char (n mod 10)])"
  by pat_completeness auto
termination
  by (relation "measure id") auto

declare str_nat.simps [simp del]

definition str_int :: "int \<Rightarrow> string" where
  "str_int i = (if i < 0 then CHR ''-'' # str_nat (nat (- i)) else str_nat (nat i))"

text \<open>\<open>str(v)\<close>, which is also what an f-string writes for \<open>{v}\<close>.\<close>

fun py_str :: "pyval \<Rightarrow> string" where
  "py_str PNone = ''None''"
| "py_str (PStr s) = s"
| "py_str (PInt i) = str_int i"

text \<open>\<open>d.get(key, default)\<close>; \<open>d.get(key)\<close> has the default \<open>None\<close>.\<close>

definition dict_get :: "pydict \<Rightarrow> string \<Rightarrow> pyval \<Rightarrow> pyval" where
  "dict_get d key dflt = (case map_of d key of Some v \<Rightarrow> v | None \<Rightarrow> dflt)"

section \<open>Chunker (pipeline.py)\<close>

text \<open>A LangChain \<open>Document\<close>: the chunk text and its metadata dictionary.\<close>

record document =
  page_content :: string
  metadata :: pydict

text \<open>The characters matched by \<open>\s\<close> and removed by \<open>strip()\<close>: the twelve
  whitespace characters among the code points below 256.\<close>

definition is_space :: "char \<Rightarrow> bool" where
  "is_space c = (c \<in> set [CHR '' '', CHR 0x09, CHR 0x0A, CHR 0x0B, CHR 0x0C, CHR 0x0D,
                           CHR 0x1C, CHR 0x1D, CHR 0x1E, CHR 0x1F, CHR 0x85, CHR 0xA0])"

text \<open>\<open>re.sub(r'\s+', ' ', text)\<close>: every maximal run of whitespace becomes one space.\<close>

function collapse_whitespace :: "string \<Rightarrow> string" where
  "collapse_whitespace [] = []"
| "collapse_whitespace (c # cs) =
     (if is_space c then CHR '' '' # collapse_whitespace (dropWhile is_space cs)
      else c # collapse_whitespace cs)"
  by pat_completeness auto
termination
  by (relation "measure length") (auto simp: length_dropWhile_le less_Suc_eq_le)

text \<open>\<open>re.sub(r'(\r\n|\n|\r)', ' ', text)\<close>.\<close>

fun remove_newlines :: "string \<Rightarrow> string" where
  "remove_newlines [] = []"
| "remove_newlines [c] = (if c = CHR 0x0D \<or> c = CHR 0x0A then '' '' else [c])"
| "remove_newlines (c # d # cs) =
     (if c = CHR 0x0D \<and> d = CHR 0x0A then CHR '' '' # remove_newlines cs
      else if c = CHR 0x0D \<or> c = CHR 0x0A then CHR '' '' # remove_newlines (d # cs)
      else c # remove_newlines (d # cs))"

definition strip :: "string \<Rightarrow> string" where
  "strip s = rev (dropWhile is_space (rev (dropWhile is_space s)))"

text \<open>\<open>DataProcessor._clean_text\<close>.\<close>

definition clean_text :: "string \<Rightarrow> string" where
  "clean_text text = strip (remove_newlines (collapse_whitespace text))"

text \<open>The \<open>chunking\<close> section of the configuration; an absent option is \<open>None\<close>.\<close>

record chunking_config =
  chunk_size :: "int option"
  chunk_overlap :: "int option"

text \<open>
  \<open>RecursiveCharacterTextSplitter(chunk_size, chunk_overlap, len).split_text\<close> is LangChain's;
  it is a parameter \<open>splitter\<close> of the model, taking the two sizes and the text.
\<close>

type_synonym text_splitter = "int \<Rightarrow> int \<Rightarrow> string \<Rightarrow> string list"

text \<open>The \<open>metadata\<close> dictionary built for one article (lines 44 to 52).\<close>

definition article_metadata :: "pydict \<Rightarrow> pydict" where
  "article_metadata article =
     (let publish_date = dict_get article ''publish_date'' PNone in
      [(''title'', PStr (py_str (dict_get article ''title'' (PStr ''N/A'')))),
       (''source'', PStr (py_str (dict_get article ''source'' (PStr ''N/A'')))),
       (''url'', PStr (py_str (dict_get article ''url'' (PStr ''N/A'')))),
       (''publish_date'', if truthy publish_date then PStr (py_str publish_date) else PStr ''N/A''),
       (''section'', PStr (py_str (dict_get article ''section'' (PStr ''N/A''))))])"

text \<open>The inner loop \<open>for i, chunk_text in enumerate(chunks)\<close>, appending to
  \<open>all_documents\<close>; \<open>i\<close> is the running index.\<close>

fun append_chunks :: "pydict \<Rightarrow> nat \<Rightarrow> string list \<Rightarrow> document list \<Rightarrow> document list" where
  "append_chunks md i [] all_documents = all_documents"
| "append_chunks md i (chunk_text # chunks) all_documents =
     append_chunks md (Suc i) chunks
       (all_documents @
        [\<lparr>page_content = chunk_text,
          metadata = AList.update ''chunk_index'' (PInt (int i)) md\<rparr>])"

text \<open>The outer loop \<open>for article in articles\<close>. \<open>re.sub\<close> raises \<open>TypeError\<close> on a text that
  is not a string.\<close>

fun process_loop :: "(string \<Rightarrow> string list) \<Rightarrow> pydict list \<Rightarrow> document list
    \<Rightarrow> py_error + document list" where
  "process_loop split_text [] all_documents = Inr all_documents"
| "process_loop split_text (article # articles) all_documents =
     (if \<not> truthy (dict_get article ''text'' PNone) then
        process_loop split_text articles all_documents
      else
        (case dict_get article ''text'' PNone of
           PStr text \<Rightarrow>
             let cleaned_text = clean_text text;
                 md = article_metadata article;
                 chunks = split_text cleaned_text
             in process_loop split_text articles (append_chunks md 0 chunks all_documents)
         | _ \<Rightarrow> Inl TypeError))"

text \<open>The splitter as \<open>process_articles\<close> configures it, with the defaults 800 and 100.\<close>

definition configured_splitter :: "chunking_config \<Rightarrow> text_splitter \<Rightarrow> string \<Rightarrow> string list" where
  "configured_splitter config splitter =
     splitter (case chunk_size config of Some n \<Rightarrow> n | None \<Rightarrow> 800)
              (case chunk_overlap config of Some n \<Rightarrow> n | None \<Rightarrow> 100)"

text \<open>\<open>DataProcessor.process_articles\<close>.\<close>

definition process_articles :: "chunking_config \<Rightarrow> text_splitter \<Rightarrow> pydict list
    \<Rightarrow> py_error + document list" where
  "process_articles config splitter articles =
     process_loop (configured_splitter config splitter) articles []"

subsection \<open>Notions used to state the chunker's properties\<close>

text \<open>The chunk texts the splitter returns for one article; none for a skipped article.\<close>

definition article_chunks :: "(string \<Rightarrow> string list) \<Rightarrow> pydict \<Rightarrow> string list" where
  "article_chunks split_text article =
     (case dict_get article ''text'' PNone of
        PStr text \<Rightarrow> if text = [] then [] else split_text (clean_text text)
      | _ \<Rightarrow> [])"

text \<open>The documents one article contributes.\<close>

definition article_documents :: "(string \<Rightarrow> string list) \<Rightarrow> pydict \<Rightarrow> document list" where
  "article_documents split_text article =
     append_chunks (article_metadata article) 0 (article_chunks split_text article) []"

text \<open>The \<open>text\<close> of an article is absent, falsy or a string: the articles \<open>_clean_text\<close>
  accepts.\<close>

definition text_is_cleanable :: "pydict \<Rightarrow> bool" where
  "text_is_cleanable article =
     (truthy (dict_get article ''text'' PNone) \<longrightarrow> is_str (dict_get article ''text'' PNone))"

section \<open>Conversational retrieval engine (core.py)\<close>

subsection \<open>The vector index\<close>

text \<open>
  The Chroma collection behind \<open>self.vectorstore\<close>: either its queries raise, or it holds
  the stored entries. \<open>count()\<close> is their number, and \<open>get(include=["metadatas"])\<close> lists
  for each entry its metadata dictionary, or \<open>None\<close> for an entry stored without metadata.
\<close>

datatype collection = Unavailable py_error | Stored "pydict option list"

text \<open>The result dictionary of \<open>get_db_stats\<close>, with its keys \<open>total_documents\<close> and
  \<open>sources\<close>.\<close>

record db_stats =
  total_documents :: int
  stats_sources :: "pyval list"

fun is_int :: "pyval \<Rightarrow> bool" where
  "is_int (PInt i) = True"
| "is_int v = False"

fun int_of :: "pyval \<Rightarrow> int" where
  "int_of (PInt i) = i"
| "int_of v = 0"

text \<open>
  \<open>sorted(xs)\<close>: strings are ordered lexicographically by character code, integers by value;
  comparing values of two different types, or two \<open>None\<close>, raises \<open>TypeError\<close>; a list of
  at most one element is returned without a comparison.
\<close>

definition py_sorted :: "pyval list \<Rightarrow> py_error + pyval list" where
  "py_sorted xs =
     (if length xs \<le> 1 then Inr xs
      else if list_all is_str xs then Inr (map PStr (sort (map py_str xs)))
      else if list_all is_int xs then Inr (map PInt (sort (map int_of xs)))
      else Inl TypeError)"

text \<open>The generator \<open>meta.get('source', 'Unknown') for meta in metadatas\<close>, consumed by
  \<open>set(...)\<close>: \<open>meta.get\<close> raises \<open>AttributeError\<close> when \<open>meta\<close> is \<open>None\<close>.\<close>

fun source_values :: "pydict option list \<Rightarrow> py_error + pyval list" where
  "source_values [] = Inr []"
| "source_values (None # metadatas) = Inl AttributeError"
| "source_values (Some meta # metadatas) =
     (case source_values metadatas of
        Inl e \<Rightarrow> Inl e
      | Inr values \<Rightarrow> Inr (dict_get meta ''source'' (PStr ''Unknown'') # values))"

text \<open>The body of the \<open>try\<close> in \<open>get_db_stats\<close>. The order in which \<open>list(set(...))\<close>
  lists the distinct values does not change what \<open>sorted\<close> returns.\<close>

definition db_stats_query :: "collection \<Rightarrow> py_error + db_stats" where
  "db_stats_query collection =
     (case collection of
        Unavailable e \<Rightarrow> Inl e
      | Stored metadatas \<Rightarrow>
          let count = int (length metadatas) in
          (case source_values metadatas of
             Inl e \<Rightarrow> Inl e
           | Inr values \<Rightarrow>
               (case py_sorted (remdups values) of
                  Inl e \<Rightarrow> Inl e
                | Inr sorted_sources \<Rightarrow>
                    Inr \<lparr>total_documents = count, stats_sources = sorted_sources\<rparr>)))"

text \<open>\<open>RAGEngine.get_db_stats\<close>: any exception of the query gives the zero result.\<close>

definition get_db_stats :: "collection \<Rightarrow> db_stats" where
  "get_db_stats collection =
     (case db_stats_query collection of
        Inr stats \<Rightarrow> stats
      | Inl e \<Rightarrow> \<lparr>total_documents = 0, stats_sources = []\<rparr>)"

subsection \<open>Notions used to state the properties of the statistics\<close>

text \<open>The values \<open>get_db_stats\<close> reads from the entries that have metadata: the \<open>source\<close>
  of an entry, and \<open>Unknown\<close> for an entry without that key.\<close>

definition read_sources :: "pydict option list \<Rightarrow> pyval list" where
  "read_sources metadatas =
     map (\<lambda>meta. dict_get meta ''source'' (PStr ''Unknown'')) (List.map_filter id metadatas)"

text \<open>Values Python can sort: at most one distinct value, or all strings, or all
  integers.\<close>

definition sortable :: "pyval list \<Rightarrow> bool" where
  "sortable values =
     (card (set values) \<le> 1 \<or> list_all is_str values \<or> list_all is_int values)"

text \<open>Python's \<open>\<le>\<close> where it is defined: between two strings and between two integers.\<close>

fun py_le :: "pyval \<Rightarrow> pyval \<Rightarrow> bool" where
  "py_le (PStr a) (PStr b) = (a \<le> b)"
| "py_le (PInt a) (PInt b) = (a \<le> b)"
| "py_le a b = False"

subsection \<open>The filtered retriever\<close>

text \<open>The filter dictionary \<open>{key: {"$in": values}}\<close>.\<close>

datatype where_filter = Where_In string "string list"

text \<open>\<open>search_kwargs\<close>: \<open>k\<close>, and \<open>filter\<close> when one was set.\<close>

record search_kwargs =
  kw_k :: int
  kw_filter :: "where_filter option"

record retriever =
  search_type :: string
  retriever_kwargs :: search_kwargs

record chain =
  chain_retriever :: retriever
  chain_session :: string

text \<open>The engine: the two \<open>rag\<close> settings it reads, and the session store, which maps a
  session identifier to its turns (question, answer).\<close>

record rag_engine =
  top_k :: int
  retrieval_type :: string
  conversational_memory :: "(string \<times> (string \<times> string) list) list"

text \<open>\<open>RAGEngine._get_conversational_chain(session_id, filters)\<close>. A filter dictionary
  has one key, so \<open>if filters:\<close> holds exactly when a filter was passed.\<close>

definition get_conversational_chain :: "rag_engine \<Rightarrow> string \<Rightarrow> where_filter option
    \<Rightarrow> rag_engine \<times> chain" where
  "get_conversational_chain engine session_id filters =
     (let engine' =
            (if map_of (conversational_memory engine) session_id = None
             then engine\<lparr>conversational_memory :=
                           AList.update session_id [] (conversational_memory engine)\<rparr>
             else engine);
          kwargs = \<lparr>kw_k = top_k engine, kw_filter = None\<rparr>;
          kwargs' = (case filters of
                       Some f \<Rightarrow> kwargs\<lparr>kw_filter := Some f\<rparr>
                     | None \<Rightarrow> kwargs)
      in (engine',
          \<lparr>chain_retriever = \<lparr>search_type = retrieval_type engine, retriever_kwargs = kwargs'\<rparr>,
           chain_session = session_id\<rparr>))"

text \<open>The filter \<open>stream_query\<close> builds from its \<open>sources\<close> argument (lines 151 to 153).\<close>

definition query_filters :: "string list option \<Rightarrow> where_filter option" where
  "query_filters sources =
     (case sources of
        None \<Rightarrow> None
      | Some names \<Rightarrow> if names = [] then None else Some (Where_In ''source'' names))"

text \<open>
  Modelled from the spec: what the filter means to the vector index, whose search belongs to
  the index library and not to the repository. The spec calls the filter ``a metadata
  predicate restricting retrieval to chunks whose \<open>source_name\<close> is in that set''.
\<close>

fun where_matches :: "where_filter \<Rightarrow> pydict \<Rightarrow> bool" where
  "where_matches (Where_In key allowed) meta =
     (case map_of meta key of
        Some (PStr s) \<Rightarrow> s \<in> set allowed
      | _ \<Rightarrow> False)"

text \<open>
  Modelled from the spec: the similarity search itself, ``returning the top-K (configurable)
  chunks matching the current question, subject to the filter''; it keeps the entries the
  filter admits, ranks them by \<open>distance\<close> to the question, and returns the first \<open>k\<close>.
\<close>

definition similarity_search :: "(string \<Rightarrow> document \<Rightarrow> nat) \<Rightarrow> search_kwargs \<Rightarrow> document list
    \<Rightarrow> string \<Rightarrow> document list" where
  "similarity_search distance kwargs entries question =
     take (nat (kw_k kwargs))
       (sort_key (distance question)
          (filter (\<lambda>d. case kw_filter kwargs of
                          None \<Rightarrow> True
                        | Some f \<Rightarrow> where_matches f (metadata d))
             entries))"

subsection \<open>Streaming a query\<close>

text \<open>One item of \<open>chain.astream\<close>: a dictionary that may hold an \<open>answer\<close> increment and
  may hold \<open>source_documents\<close>.\<close>

record stream_chunk =
  chunk_answer :: "string option"
  chunk_source_documents :: "document list option"

text \<open>The chain's stream is LangChain's and the language model's: a parameter giving, for a
  chain and a question, the items produced and the exception that ended the stream, if any.\<close>

type_synonym chain_stream = "chain \<Rightarrow> string \<Rightarrow> stream_chunk list \<times> py_error option"

text \<open>
  Modelled from the spec: the chain's stream, which is the chain library's and not in the
  repository (steps 2 to 4 of the engine's state machine). It retrieves ``the top-K chunks
  matching the current question, subject to the filter'' through the chain's retriever,
  invokes the generative capability with the retrieved chunks, forwards ``each produced
  increment'', and reports the retrieved chunks as the source chunks once the answer is
  complete. \<open>generate\<close> is the generative capability: for a session, the retrieved chunks and
  the question, the increments it produces and the exception that ends them, if any.
\<close>

definition retrieval_chain_stream :: "(string \<Rightarrow> document \<Rightarrow> nat)
    \<Rightarrow> (string \<Rightarrow> document list \<Rightarrow> string \<Rightarrow> string list \<times> py_error option)
    \<Rightarrow> document list \<Rightarrow> chain_stream" where
  "retrieval_chain_stream distance generate entries chain question =
     (let docs = similarity_search distance (retriever_kwargs (chain_retriever chain)) entries
                   question;
          (increments, failure) = generate (chain_session chain) docs question
      in (map (\<lambda>a. \<lparr>chunk_answer = Some a, chunk_source_documents = None\<rparr>) increments
            @ (case failure of
                 None \<Rightarrow> [\<lparr>chunk_answer = None, chunk_source_documents = Some docs\<rparr>]
               | Some e \<Rightarrow> []),
          failure))"

text \<open>The \<open>async for\<close> loop: the increments yielded so far and the accumulated
  \<open>source_documents\<close>.\<close>

fun consume_stream :: "stream_chunk list \<Rightarrow> string list \<Rightarrow> document list
    \<Rightarrow> string list \<times> document list" where
  "consume_stream [] yielded docs = (yielded, docs)"
| "consume_stream (chunk # chunks) yielded docs =
     consume_stream chunks
       (case chunk_answer chunk of Some a \<Rightarrow> yielded @ [a] | None \<Rightarrow> yielded)
       (case chunk_source_documents chunk of Some ds \<Rightarrow> docs @ ds | None \<Rightarrow> docs)"

text \<open>The dictionary comprehension \<open>{doc.metadata['url']: doc for doc in source_documents}\<close>:
  a later document with the same URL replaces the value and keeps the key's position;
  \<open>doc.metadata['url']\<close> raises \<open>KeyError\<close> when the key is absent.\<close>

fun url_dict :: "document list \<Rightarrow> (pyval \<times> document) list \<Rightarrow> py_error + (pyval \<times> document) list" where
  "url_dict [] acc = Inr acc"
| "url_dict (doc # docs) acc =
     (case map_of (metadata doc) ''url'' of
        None \<Rightarrow> Inl KeyError
      | Some url \<Rightarrow> url_dict docs (AList.update url doc acc))"

definition unique_sources :: "document list \<Rightarrow> py_error + document list" where
  "unique_sources source_documents =
     (case url_dict source_documents [] of
        Inl e \<Rightarrow> Inl e
      | Inr d \<Rightarrow> Inr (map snd d))"

definition newline :: char where
  "newline = CHR 0x0A"

definition sources_header :: string where
  "sources_header = [newline, newline] @ ''---'' @ [newline] @ ''**Sources:**'' @ [newline]"

text \<open>The loop \<open>for i, doc in enumerate(unique_sources, 1)\<close>, appending to \<open>sources_text\<close>.\<close>

fun format_sources :: "nat \<Rightarrow> document list \<Rightarrow> string \<Rightarrow> string" where
  "format_sources i [] sources_text = sources_text"
| "format_sources i (doc # docs) sources_text =
     (let title = dict_get (metadata doc) ''title'' (PStr ''Unknown Title'');
          url = dict_get (metadata doc) ''url'' (PStr ''#'')
      in format_sources (Suc i) docs
           (sources_text @ str_nat i @ ''. ['' @ py_str title @ '']('' @ py_str url @ '')''
              @ [newline]))"

text \<open>\<open>RAGEngine.stream_query(query, session_id, sources)\<close>: the engine afterwards, the
  increments yielded in order, and the exception that ended the generator, if any.\<close>

definition stream_query :: "chain_stream \<Rightarrow> rag_engine \<Rightarrow> string \<Rightarrow> string \<Rightarrow> string list option
    \<Rightarrow> rag_engine \<times> string list \<times> py_error option" where
  "stream_query astream engine query session_id sources =
     (let filters = query_filters sources;
          (engine', chain) = get_conversational_chain engine session_id filters;
          (chunks, failure) = astream chain query;
          (yielded, docs) = consume_stream chunks [] []
      in (case failure of
            Some e \<Rightarrow> (engine', yielded, Some e)
          | None \<Rightarrow>
              if docs = [] then (engine', yielded, None)
              else (case unique_sources docs of
                      Inl e \<Rightarrow> (engine', yielded, Some e)
                    | Inr uniq \<Rightarrow>
                        (engine', yielded @ [format_sources 1 uniq sources_header], None))))"

subsection \<open>Notions used to state the engine's properties\<close>

text \<open>The chain \<open>stream_query\<close> runs for a request.\<close>

definition query_chain :: "rag_engine \<Rightarrow> string \<Rightarrow> string list option \<Rightarrow> chain" where
  "query_chain engine session_id sources =
     snd (get_conversational_chain engine session_id (query_filters sources))"

text \<open>The chunks the chain's retriever returns for a request.\<close>

definition retrieved_chunks :: "(string \<Rightarrow> document \<Rightarrow> nat) \<Rightarrow> rag_engine \<Rightarrow> string
    \<Rightarrow> string list option \<Rightarrow> document list \<Rightarrow> string \<Rightarrow> document list" where
  "retrieved_chunks distance engine session_id sources entries question =
     similarity_search distance
       (retriever_kwargs (chain_retriever (query_chain engine session_id sources)))
       entries question"

text \<open>The answer text of a stream and the source chunks it reports.\<close>

definition answer_text :: "stream_chunk list \<Rightarrow> string" where
  "answer_text chunks = concat (List.map_filter chunk_answer chunks)"

definition used_documents :: "stream_chunk list \<Rightarrow> document list" where
  "used_documents chunks = concat (List.map_filter chunk_source_documents chunks)"

text \<open>One line \<open>N. [title](url)\<close> of the citation list.\<close>

definition citation_line :: "nat \<Rightarrow> document \<Rightarrow> string" where
  "citation_line n doc =
     str_nat n @ ''. ['' @ py_str (dict_get (metadata doc) ''title'' (PStr ''Unknown Title''))
       @ '']('' @ py_str (dict_get (metadata doc) ''url'' (PStr ''#'')) @ '')'' @ [newline]"

text \<open>The \<open>url\<close> entry of a chunk's metadata.\<close>

definition url_of :: "document \<Rightarrow> pyval option" where
  "url_of doc = map_of (metadata doc) ''url''"

section \<open>Scraper (scraper.py)\<close>

text \<open>
  One entry of \<open>news_sources\<close> in the configuration. \<open>base_url\<close> and \<open>sections\<close> are read
  with \<open>source_config[...]\<close>, which raises \<open>KeyError\<close> when the key is absent; the two flags
  are read with \<open>.get\<close> and tested for truth.
\<close>

record source_config =
  base_url :: "string option"
  sections :: "string list option"
  requires_selenium :: bool
  scrape_enabled :: bool

text \<open>The WebDriver held in \<open>self.selenium_driver\<close>: running, or closed by \<open>quit()\<close>.\<close>

datatype driver = Running | Closed

text \<open>The scraper object: \<open>self.config['news_sources']\<close>, in the order \<open>.items()\<close> lists
  it (absent when the key is missing), and \<open>self.selenium_driver\<close>.\<close>

record scraper =
  news_sources :: "(string \<times> source_config) list option"
  selenium_driver :: "driver option"

text \<open>What \<open>newspaper\<close> extracts from a page; the date is already in ISO format.\<close>

record parsed_article =
  parsed_title :: string
  parsed_text :: string
  parsed_publish_date :: "string option"

text \<open>
  The world outside the program, fixed for one run: whether Chrome starts
  (\<open>webdriver.Chrome\<close>), the \<open>href\<close>s of the links of a page fetched through Selenium or
  through \<open>requests\<close> (or the exception of the fetch), \<open>urllib\<close>'s \<open>urljoin\<close> (which raises
  \<open>ValueError\<close> on a malformed URL), the download and parse of an article by \<open>newspaper\<close>,
  the order in which Python iterates a set of URLs, and the clock.
\<close>

record web =
  chrome :: "py_error option"
  selenium_page :: "string \<Rightarrow> py_error + string list"
  requests_page :: "string \<Rightarrow> py_error + string list"
  urljoin :: "string \<Rightarrow> string \<Rightarrow> py_error + string"
  newspaper :: "string \<Rightarrow> py_error + parsed_article"
  set_order :: "string list \<Rightarrow> string list"
  now :: string

text \<open>\<open>FinancialNewsScraper._setup_selenium\<close>.\<close>

definition setup_selenium :: "web \<Rightarrow> scraper \<Rightarrow> py_error option \<times> scraper" where
  "setup_selenium w s =
     (if selenium_driver s = None then
        (case chrome w of
           Some e \<Rightarrow> (Some e, s)
         | None \<Rightarrow> (None, s\<lparr>selenium_driver := Some Running\<rparr>))
      else (None, s))"

text \<open>Lines 98 to 108: the links of a section page. A closed driver cannot load a page.\<close>

definition fetch_links :: "web \<Rightarrow> source_config \<Rightarrow> scraper \<Rightarrow> string
    \<Rightarrow> (py_error + string list) \<times> scraper" where
  "fetch_links w source_config s section_url =
     (if requires_selenium source_config then
        (case setup_selenium w s of
           (Some e, s') \<Rightarrow> (Inl e, s')
         | (None, s') \<Rightarrow>
             (case selenium_driver s' of
                Some Running \<Rightarrow> (selenium_page w section_url, s')
              | _ \<Rightarrow> (Inl WebDriverException, s')))
      else (requests_page w section_url, s))"

definition is_digit :: "char \<Rightarrow> bool" where
  "is_digit c = (c \<in> set ''0123456789'')"

text \<open>A match of \<open>/\d{6,}\<close> somewhere in the string.\<close>

fun slash_digits :: "string \<Rightarrow> bool" where
  "slash_digits [] = False"
| "slash_digits (c # cs) =
     ((c = CHR ''/'' \<and> 6 \<le> length (takeWhile is_digit cs)) \<or> slash_digits cs)"

text \<open>\<open>re.search(r'/\d{6,}|/news/|/article/|/opinion/|/story/', href)\<close>.\<close>

definition article_like :: "string \<Rightarrow> bool" where
  "article_like href =
     (slash_digits href \<or> str_in ''/news/'' href \<or> str_in ''/article/'' href
      \<or> str_in ''/opinion/'' href \<or> str_in ''/story/'' href)"

text \<open>The loop over \<open>links\<close> that fills \<open>unique_urls\<close>, a set kept as a list without
  duplicates; an exception of \<open>urljoin\<close> leaves the loop.\<close>

fun collect_urls :: "web \<Rightarrow> string \<Rightarrow> string list \<Rightarrow> string list \<Rightarrow> py_error + string list" where
  "collect_urls w base [] unique_urls = Inr unique_urls"
| "collect_urls w base (href # links) unique_urls =
     (if article_like href then
        (case urljoin w base href of
           Inl e \<Rightarrow> Inl e
         | Inr full_url \<Rightarrow>
             collect_urls w base links
               (if \<not> list_ex (\<lambda>x. str_in x full_url) [''/category/'', ''/author/'', ''/topic/'']
                then List.insert full_url unique_urls
                else unique_urls))
      else collect_urls w base links unique_urls)"

text \<open>\<open>FinancialNewsScraper._extract_article_content\<close>: every exception of the download
  and the parse is caught and gives \<open>None\<close>.\<close>

definition extract_article_content :: "web \<Rightarrow> string \<Rightarrow> pydict option" where
  "extract_article_content w url =
     (case newspaper w url of
        Inl e \<Rightarrow> None
      | Inr article \<Rightarrow>
          if is_relevant (parsed_text article) (parsed_title article) then
            Some [(''url'', PStr url),
                  (''title'', PStr (parsed_title article)),
                  (''text'', PStr (parsed_text article)),
                  (''publish_date'',
                     PStr (case parsed_publish_date article of Some d \<Rightarrow> d | None \<Rightarrow> now w)),
                  (''scraped_at'', PStr (now w))]
          else None)"

text \<open>The loop \<open>for url in list(unique_urls)[:7]\<close>, appending to \<open>articles\<close>.\<close>

fun scrape_urls :: "web \<Rightarrow> string \<Rightarrow> string \<Rightarrow> string list \<Rightarrow> pydict list \<Rightarrow> pydict list" where
  "scrape_urls w source_name section [] articles = articles"
| "scrape_urls w source_name section (url # urls) articles =
     scrape_urls w source_name section urls
       (case extract_article_content w url of
          Some article_data \<Rightarrow>
            articles @ [AList.update ''section'' (PStr section)
                          (AList.update ''source'' (PStr source_name) article_data)]
        | None \<Rightarrow> articles)"

text \<open>The loop \<open>for section in source_config['sections']\<close>. \<open>urljoin(base_url, section)\<close>
  is evaluated before the \<open>try\<close>: its exception leaves the loop and the method, and the
  articles collected so far are lost. The \<open>except\<close> of a section catches the exceptions of
  the fetch and of the link loop, logs them and goes on with the next section.\<close>

fun scrape_sections :: "web \<Rightarrow> string \<Rightarrow> source_config \<Rightarrow> string \<Rightarrow> string list
    \<Rightarrow> scraper \<Rightarrow> pydict list \<Rightarrow> (py_error + pydict list) \<times> scraper" where
  "scrape_sections w source_name source_config base [] s articles = (Inr articles, s)"
| "scrape_sections w source_name source_config base (section # rest) s articles =
     (case urljoin w base section of
        Inl e \<Rightarrow> (Inl e, s)
      | Inr section_url \<Rightarrow>
          (case fetch_links w source_config s section_url of
             (Inl e, s') \<Rightarrow> scrape_sections w source_name source_config base rest s' articles
           | (Inr links, s') \<Rightarrow>
               (case collect_urls w base links [] of
                  Inl e \<Rightarrow> scrape_sections w source_name source_config base rest s' articles
                | Inr unique_urls \<Rightarrow>
                    scrape_sections w source_name source_config base rest s'
                      (scrape_urls w source_name section (take 7 (set_order w unique_urls))
                         articles))))"

text \<open>\<open>FinancialNewsScraper._scrape_source\<close>.\<close>

definition scrape_source :: "web \<Rightarrow> string \<Rightarrow> source_config \<Rightarrow> scraper
    \<Rightarrow> (py_error + pydict list) \<times> scraper" where
  "scrape_source w source_name source_config s =
     (case base_url source_config of
        None \<Rightarrow> (Inl KeyError, s)
      | Some base \<Rightarrow>
          (case sections source_config of
             None \<Rightarrow> (Inl KeyError, s)
           | Some section_list \<Rightarrow>
               scrape_sections w source_name source_config base section_list s []))"

text \<open>The loop of \<open>scrape_all\<close> over the configured sources; an exception of
  \<open>_scrape_source\<close> leaves the loop and the method.\<close>

fun scrape_sources :: "web \<Rightarrow> (string \<times> source_config) list \<Rightarrow> scraper \<Rightarrow> pydict list
    \<Rightarrow> (py_error + pydict list) \<times> scraper" where
  "scrape_sources w [] s all_articles = (Inr all_articles, s)"
| "scrape_sources w ((source_name, source_config) # rest) s all_articles =
     (if scrape_enabled source_config then
        (case scrape_source w source_name source_config s of
           (Inl e, s') \<Rightarrow> (Inl e, s')
         | (Inr articles, s') \<Rightarrow> scrape_sources w rest s' (all_articles @ articles))
      else scrape_sources w rest s all_articles)"

text \<open>\<open>FinancialNewsScraper.scrape_all\<close>: the result or the exception, and the scraper
  afterwards.\<close>

definition scrape_all :: "web \<Rightarrow> scraper \<Rightarrow> (py_error + pydict list) \<times> scraper" where
  "scrape_all w s =
     (case news_sources s of
        None \<Rightarrow> (Inl KeyError, s)
      | Some source_list \<Rightarrow>
          (case scrape_sources w source_list s [] of
             (Inl e, s') \<Rightarrow> (Inl e, s')
           | (Inr all_articles, s') \<Rightarrow>
               (Inr all_articles,
                if selenium_driver s' \<noteq> None then s'\<lparr>selenium_driver := Some Closed\<rparr> else s')))"

subsection \<open>Notions used to state the scraper's properties\<close>

text \<open>A page can be loaded through Selenium during the run: the driver is running, or there
  is none yet and Chrome starts.\<close>

definition driver_usable :: "web \<Rightarrow> scraper \<Rightarrow> bool" where
  "driver_usable w s =
     (selenium_driver s = Some Running \<or> (selenium_driver s = None \<and> chrome w = None))"

text \<open>The candidate URLs of one section; \<open>None\<close> when the section is skipped: its URL
  cannot be formed, the fetch of its page fails, or a link of the page cannot be joined.\<close>

definition section_candidates :: "web \<Rightarrow> source_config \<Rightarrow> bool \<Rightarrow> string \<Rightarrow> string
    \<Rightarrow> string list option" where
  "section_candidates w source_config usable base section =
     (case urljoin w base section of
        Inl e \<Rightarrow> None
      | Inr section_url \<Rightarrow>
          (case (if requires_selenium source_config then
                   (if usable then selenium_page w section_url else Inl WebDriverException)
                 else requests_page w section_url) of
             Inl e \<Rightarrow> None
           | Inr links \<Rightarrow>
               (case collect_urls w base links [] of
                  Inl e \<Rightarrow> None
                | Inr unique_urls \<Rightarrow> Some (take 7 (set_order w unique_urls)))))"

text \<open>What one URL contributes: its article, tagged with source and section, or nothing when
  extraction fails or the validator rejects it.\<close>

definition url_article :: "web \<Rightarrow> string \<Rightarrow> string \<Rightarrow> string \<Rightarrow> pydict option" where
  "url_article w source_name section url =
     map_option (\<lambda>article_data. AList.update ''section'' (PStr section)
                    (AList.update ''source'' (PStr source_name) article_data))
       (extract_article_content w url)"

text \<open>What one section contributes: nothing when its fetch fails, and otherwise what each
  of its candidate URLs contributes, in order.\<close>

definition section_articles :: "web \<Rightarrow> string \<Rightarrow> source_config \<Rightarrow> bool \<Rightarrow> string \<Rightarrow> string
    \<Rightarrow> pydict list" where
  "section_articles w source_name source_config usable base section =
     (case section_candidates w source_config usable base section of
        None \<Rightarrow> []
      | Some urls \<Rightarrow> List.map_filter (url_article w source_name section) urls)"

text \<open>What one configured source contributes: nothing when it is not enabled.\<close>

definition source_articles :: "web \<Rightarrow> bool \<Rightarrow> string \<times> source_config \<Rightarrow> pydict list" where
  "source_articles w usable entry =
     (case entry of (source_name, source_config) \<Rightarrow>
        if scrape_enabled source_config then
          concat (map (section_articles w source_name source_config usable
                         (the (base_url source_config)))
                    (the (sections source_config)))
        else [])"

text \<open>The configuration raises nothing: every enabled source has the two keys
  \<open>_scrape_source\<close> indexes, and \<open>urljoin\<close> accepts its base URL with each of its section
  paths.\<close>

definition well_configured :: "web \<Rightarrow> (string \<times> source_config) list \<Rightarrow> bool" where
  "well_configured w source_list =
     (\<forall>(source_name, source_config) \<in> set source_list.
        scrape_enabled source_config \<longrightarrow>
          (\<exists>base section_list.
             base_url source_config = Some base \<and> sections source_config = Some section_list
             \<and> (\<forall>section \<in> set section_list. \<exists>section_url.
                    urljoin w base section = Inr section_url)))"

section \<open>Properties of the content validator\<close>

lemma sum_ones_length: "sum_list (map (\<lambda>x. 1::int) xs) = int (length xs)"
  by (induction xs) simp_all

lemma distinct_FINANCIAL_KEYWORDS: "distinct FINANCIAL_KEYWORDS"
  by (simp add: FINANCIAL_KEYWORDS_def)

lemma two_members_filter_length:
  assumes d: "distinct xs"
    and a: "a \<in> set xs" "P a"
    and b: "b \<in> set xs" "P b"
    and ne: "a \<noteq> b"
  shows "2 \<le> length (filter P xs)"
proof -
  have sub: "{a, b} \<subseteq> set (filter P xs)"
    using a b by simp
  have "card {a, b} \<le> card (set (filter P xs))"
    by (rule card_mono[OF _ sub]) simp
  moreover have "card {a, b} = 2"
    using ne by simp
  moreover have "card (set (filter P xs)) = length (filter P xs)"
  proof (rule distinct_card)
    show "distinct (filter P xs)" using d by simp
  qed
  ultimately show ?thesis by simp
qed

lemma is_relevant_accepts:
  assumes "300 \<le> length text"
    and "\<not> str_in ''etprime member'' (py_lower text)"
    and "\<not> str_in ''subscribe to read'' (py_lower text)"
    and "k1 \<in> set FINANCIAL_KEYWORDS" and "k2 \<in> set FINANCIAL_KEYWORDS" and "k1 \<noteq> k2"
    and "str_in k1 (py_lower (title @ '' '' @ text))"
    and "str_in k2 (py_lower (title @ '' '' @ text))"
  shows "is_relevant text title"
proof -
  have "2 \<le> length (filter (\<lambda>keyword. str_in keyword (py_lower (title @ '' '' @ text)))
                  FINANCIAL_KEYWORDS)"
    using two_members_filter_length[OF distinct_FINANCIAL_KEYWORDS assms(4) assms(7) assms(5)
        assms(8) assms(6)] .
  moreover have "text \<noteq> []"
    using assms(1) by auto
  ultimately show ?thesis
    using assms(1-3) by (simp add: is_relevant_def sum_ones_length Let_def)
qed

lemma py_lower_append: "py_lower (a @ b) = py_lower a @ py_lower b"
  by (simp add: py_lower_def)

lemma py_lower_replicate_dot: "py_lower (replicate n CHR ''.'') = replicate n CHR ''.''"
  by (simp add: py_lower_def py_lower_char_def)

lemma str_in_lower_text:
  assumes "str_in k (py_lower text)"
  shows "str_in k (py_lower (title @ '' '' @ text))"
  using assms unfolding py_lower_append str_in_def
  by (simp only: sublist_append) blast

text \<open>Padding a text with a character that does not occur in a phrase adds no occurrence
  of the phrase.\<close>

lemma str_in_padding:
  assumes "c \<notin> set p" and "p \<noteq> []"
  shows "str_in p (a @ replicate n c) = str_in p a"
proof (induction n)
  case 0
  show ?case by simp
next
  case (Suc n)
  have "sublist p ((a @ replicate n c) @ [c]) = sublist (rev p) (c # rev (a @ replicate n c))"
    using sublist_rev[of p "(a @ replicate n c) @ [c]"] by simp
  also have "\<dots> = (prefix (rev p) (c # rev (a @ replicate n c))
      \<or> sublist (rev p) (rev (a @ replicate n c)))"
    by (rule sublist_Cons_right)
  finally have split: "sublist p ((a @ replicate n c) @ [c])
      = (prefix (rev p) (c # rev (a @ replicate n c))
         \<or> sublist (rev p) (rev (a @ replicate n c)))" .
  have "\<not> prefix (rev p) (c # rev (a @ replicate n c))"
  proof
    assume "prefix (rev p) (c # rev (a @ replicate n c))"
    moreover obtain y ys where "rev p = y # ys"
      using assms(2) by (cases "rev p") simp_all
    ultimately have "c \<in> set (rev p)"
      by simp
    then show False
      using assms(1) by simp
  qed
  with split have "sublist p ((a @ replicate n c) @ [c]) = sublist p (a @ replicate n c)"
    by (simp del: rev_append)
  moreover have "a @ replicate (Suc n) c = (a @ replicate n c) @ [c]"
    by (simp add: replicate_append_same)
  ultimately show ?case
    using Suc.IH by (simp add: str_in_def del: replicate_Suc append_assoc)
qed

text \<open>An example text of 320 characters: two keywords, no paywall phrase.\<close>

lemma example_text_lower:
  "py_lower (''Sensex and Nifty up '' @ replicate 300 CHR ''.'')
     = ''sensex and nifty up '' @ replicate 300 CHR ''.''"
  unfolding py_lower_append py_lower_replicate_dot
  by (simp add: py_lower_def py_lower_char_def)

lemma example_text_length:
  "300 \<le> length (''Sensex and Nifty up '' @ replicate 300 CHR ''.'')"
  by simp

lemma example_text_no_etprime:
  "\<not> str_in ''etprime member'' (py_lower (''Sensex and Nifty up '' @ replicate 300 CHR ''.''))"
  unfolding example_text_lower
  by (subst str_in_padding) (simp_all add: str_in_def sublist_code prefix_code)

lemma example_text_no_subscribe:
  "\<not> str_in ''subscribe to read'' (py_lower (''Sensex and Nifty up '' @ replicate 300 CHR ''.''))"
  unfolding example_text_lower
  by (subst str_in_padding) (simp_all add: str_in_def sublist_code prefix_code)

lemmas example_text_no_paywall = example_text_no_etprime example_text_no_subscribe

lemma example_text_has_sensex:
  "str_in ''sensex''
     (py_lower (title @ '' '' @ ''Sensex and Nifty up '' @ replicate 300 CHR ''.''))"
  by (rule str_in_lower_text, unfold example_text_lower, subst str_in_padding)
     (simp_all add: str_in_def sublist_code prefix_code)

lemma example_text_has_nifty:
  "str_in ''nifty''
     (py_lower (title @ '' '' @ ''Sensex and Nifty up '' @ replicate 300 CHR ''.''))"
  by (rule str_in_lower_text, unfold example_text_lower, subst str_in_padding)
     (simp_all add: str_in_def sublist_code prefix_code)

lemmas example_text_keywords = example_text_has_sensex example_text_has_nifty

lemma example_keywords_in_vocabulary:
  "''sensex'' \<in> set FINANCIAL_KEYWORDS" "''nifty'' \<in> set FINANCIAL_KEYWORDS"
  by (simp_all add: FINANCIAL_KEYWORDS_def)

lemma example_text_is_relevant:
  "is_relevant (''Sensex and Nifty up '' @ replicate 300 CHR ''.'') title"
  by (rule is_relevant_accepts[OF example_text_length example_text_no_paywall
        example_keywords_in_vocabulary _ example_text_keywords]) simp

lemma example_paywall_text:
  "str_in ''subscribe to read''
     (py_lower (''Markets: Subscribe To Read '' @ replicate 300 CHR ''.''))"
proof -
  have "py_lower (''Markets: Subscribe To Read '' @ replicate 300 CHR ''.'')
      = ''markets: subscribe to read '' @ replicate 300 CHR ''.''"
    unfolding py_lower_append py_lower_replicate_dot
    by (simp add: py_lower_def py_lower_char_def)
  then show ?thesis
    by (simp only:) (subst str_in_padding, simp_all add: str_in_def sublist_code prefix_code)
qed

text \<open>
  C4. The validator rejects every text shorter than 300 characters and every text that
  contains a paywall phrase (matched case-insensitively), whatever the number of keywords;
  it accepts every text of at least 300 characters without a paywall phrase in which two
  distinct terms of the keyword vocabulary occur, case-insensitively, in
  \<open>title + " " + text\<close>.
\<close>

theorem is_relevant_rejects_and_accepts:
  "(length text < 300 \<or> str_in ''etprime member'' (py_lower text)
      \<or> str_in ''subscribe to read'' (py_lower text)
     \<longrightarrow> \<not> is_relevant text title)
   \<and>
   (300 \<le> length text \<and> \<not> str_in ''etprime member'' (py_lower text)
      \<and> \<not> str_in ''subscribe to read'' (py_lower text)
      \<and> (\<exists>k1 \<in> set FINANCIAL_KEYWORDS. \<exists>k2 \<in> set FINANCIAL_KEYWORDS. k1 \<noteq> k2
            \<and> str_in k1 (py_lower (title @ '' '' @ text))
            \<and> str_in k2 (py_lower (title @ '' '' @ text)))
     \<longrightarrow> is_relevant text title)"
proof (intro conjI impI)
  assume "length text < 300 \<or> str_in ''etprime member'' (py_lower text)
      \<or> str_in ''subscribe to read'' (py_lower text)"
  then show "\<not> is_relevant text title"
    by (auto simp: is_relevant_def)
next
  assume h: "300 \<le> length text \<and> \<not> str_in ''etprime member'' (py_lower text)
      \<and> \<not> str_in ''subscribe to read'' (py_lower text)
      \<and> (\<exists>k1 \<in> set FINANCIAL_KEYWORDS. \<exists>k2 \<in> set FINANCIAL_KEYWORDS. k1 \<noteq> k2
            \<and> str_in k1 (py_lower (title @ '' '' @ text))
            \<and> str_in k2 (py_lower (title @ '' '' @ text)))"
  then obtain k1 k2 where k: "k1 \<in> set FINANCIAL_KEYWORDS" "k2 \<in> set FINANCIAL_KEYWORDS"
      "k1 \<noteq> k2" "str_in k1 (py_lower (title @ '' '' @ text))"
      "str_in k2 (py_lower (title @ '' '' @ text))"
    by blast
  from h have "300 \<le> length text" "\<not> str_in ''etprime member'' (py_lower text)"
      "\<not> str_in ''subscribe to read'' (py_lower text)"
    by simp_all
  then show "is_relevant text title"
    using k by (rule is_relevant_accepts)
qed

theorem is_relevant_rejects_and_accepts_witness:
  "is_relevant (''Sensex and Nifty up '' @ replicate 300 CHR ''.'') ''Daily''
   \<and> \<not> is_relevant ''stock market shares'' ''Daily''
   \<and> \<not> is_relevant (''Markets: Subscribe To Read '' @ replicate 300 CHR ''.'') ''Daily''"
proof -
  define long where "long = ''Sensex and Nifty up '' @ replicate 300 CHR ''.''"
  define wall where "wall = ''Markets: Subscribe To Read '' @ replicate 300 CHR ''.''"
  define short where "short = ''stock market shares''"
  define title where "title = ''Daily''"
  have len: "300 \<le> length long"
    unfolding long_def by (rule example_text_length)
  have no_wall: "\<not> str_in ''etprime member'' (py_lower long)"
    "\<not> str_in ''subscribe to read'' (py_lower long)"
    unfolding long_def by (rule example_text_no_etprime, rule example_text_no_subscribe)
  have occ: "str_in ''sensex'' (py_lower (title @ '' '' @ long))"
    "str_in ''nifty'' (py_lower (title @ '' '' @ long))"
    unfolding long_def title_def by (rule example_text_has_sensex, rule example_text_has_nifty)
  have ne: "''sensex'' \<noteq> ''nifty''" by simp
  have two: "\<exists>k1 \<in> set FINANCIAL_KEYWORDS. \<exists>k2 \<in> set FINANCIAL_KEYWORDS. k1 \<noteq> k2
            \<and> str_in k1 (py_lower (title @ '' '' @ long))
            \<and> str_in k2 (py_lower (title @ '' '' @ long))"
  proof (rule bexI[OF _ example_keywords_in_vocabulary(1)],
         rule bexI[OF _ example_keywords_in_vocabulary(2)])
    show "''sensex'' \<noteq> ''nifty'' \<and> str_in ''sensex'' (py_lower (title @ '' '' @ long))
        \<and> str_in ''nifty'' (py_lower (title @ '' '' @ long))"
      by (intro conjI ne occ)
  qed
  have short_hyp: "length short < 300"
    unfolding short_def by simp
  have wall_hyp: "str_in ''subscribe to read'' (py_lower wall)"
    unfolding wall_def by (rule example_paywall_text)
  have "is_relevant long title"
    by (rule is_relevant_rejects_and_accepts[THEN conjunct2, THEN mp])
       (intro conjI len no_wall two)
  moreover have "\<not> is_relevant short title"
    by (rule is_relevant_rejects_and_accepts[THEN conjunct1, THEN mp])
       (rule disjI1, rule short_hyp)
  moreover have "\<not> is_relevant wall title"
    by (rule is_relevant_rejects_and_accepts[THEN conjunct1, THEN mp])
       (rule disjI2, rule disjI2, rule wall_hyp)
  ultimately show ?thesis
    unfolding long_def wall_def short_def title_def by (intro conjI)
qed

section \<open>Properties of the chunker\<close>

lemma append_chunks_acc:
  "append_chunks md i chunks acc = acc @ append_chunks md i chunks []"
proof (induction chunks arbitrary: i acc)
  case Nil
  show ?case by simp
next
  case (Cons c cs)
  have "append_chunks md i (c # cs) acc =
      append_chunks md (Suc i) cs
        (acc @ [\<lparr>page_content = c, metadata = AList.update ''chunk_index'' (PInt (int i)) md\<rparr>])"
    by simp
  also have "\<dots> = (acc @ [\<lparr>page_content = c,
        metadata = AList.update ''chunk_index'' (PInt (int i)) md\<rparr>])
      @ append_chunks md (Suc i) cs []"
    by (rule Cons.IH)
  also have "\<dots> = acc @ append_chunks md i (c # cs) []"
    using Cons.IH[of "Suc i" "[\<lparr>page_content = c,
        metadata = AList.update ''chunk_index'' (PInt (int i)) md\<rparr>]"]
    by simp
  finally show ?case .
qed

lemma append_chunks_Cons:
  "append_chunks md i (c # cs) [] =
     \<lparr>page_content = c, metadata = AList.update ''chunk_index'' (PInt (int i)) md\<rparr>
       # append_chunks md (Suc i) cs []"
  using append_chunks_acc[of md "Suc i" cs
      "[\<lparr>page_content = c, metadata = AList.update ''chunk_index'' (PInt (int i)) md\<rparr>]"]
  by simp

lemma page_content_append_chunks:
  "map page_content (append_chunks md i chunks []) = chunks"
  by (induction chunks arbitrary: i) (simp_all add: append_chunks_Cons del: append_chunks.simps(2))

lemma length_append_chunks:
  "length (append_chunks md i chunks []) = length chunks"
  using page_content_append_chunks[of md i chunks] by (metis length_map)

lemma chunk_index_append_chunks:
  "map (\<lambda>d. map_of (metadata d) ''chunk_index'') (append_chunks md i chunks [])
     = map (\<lambda>j. Some (PInt (int j))) [i..<i + length chunks]"
proof (induction chunks arbitrary: i)
  case Nil
  show ?case by simp
next
  case (Cons c cs)
  have "i < i + length (c # cs)"
    by simp
  then have "[i..<i + length (c # cs)] = i # [Suc i..<i + length (c # cs)]"
    by (rule upt_conv_Cons)
  moreover have "i + length (c # cs) = Suc i + length cs"
    by simp
  ultimately have "[i..<i + length (c # cs)] = i # [Suc i..<Suc i + length cs]"
    by (simp only:)
  then show ?case
    using Cons.IH[of "Suc i"]
    by (simp add: append_chunks_Cons update_conv' del: append_chunks.simps(2))
qed

lemma process_loop_step:
  assumes "text_is_cleanable article"
  shows "process_loop split_text (article # articles) acc =
     process_loop split_text articles (acc @ article_documents split_text article)"
proof (cases "dict_get article ''text'' PNone")
  case PNone
  then show ?thesis
    by (simp add: article_documents_def article_chunks_def)
next
  case (PStr body)
  then show ?thesis
    using append_chunks_acc[of "article_metadata article" 0 "split_text (clean_text body)" acc]
    by (simp add: article_documents_def article_chunks_def)
next
  case (PInt i)
  then have "i = 0"
    using assms by (auto simp: text_is_cleanable_def)
  with PInt show ?thesis
    by (simp add: article_documents_def article_chunks_def)
qed

lemma process_loop_concat:
  assumes "\<forall>article \<in> set articles. text_is_cleanable article"
  shows "process_loop split_text articles acc =
     Inr (acc @ concat (map (article_documents split_text) articles))"
  using assms
proof (induction articles arbitrary: acc)
  case Nil
  show ?case by simp
next
  case (Cons a as)
  then show ?case
    by (simp add: process_loop_step del: process_loop.simps(2))
qed


lemma article_metadata_values_are_strings:
  "(k, v) \<in> set (article_metadata article) \<Longrightarrow> is_str v"
  by (auto simp: article_metadata_def Let_def)

lemma append_chunks_index_is_int:
  "d \<in> set (append_chunks md i chunks []) \<Longrightarrow>
     \<exists>j. map_of (metadata d) ''chunk_index'' = Some (PInt j)"
proof -
  assume "d \<in> set (append_chunks md i chunks [])"
  then have "map_of (metadata d) ''chunk_index''
      \<in> set (map (\<lambda>d. map_of (metadata d) ''chunk_index'') (append_chunks md i chunks []))"
    by simp
  then show ?thesis
    unfolding chunk_index_append_chunks by auto
qed

lemma process_loop_index_is_int:
  assumes "process_loop split_text articles acc = Inr docs"
    and "\<forall>d \<in> set acc. \<exists>j. map_of (metadata d) ''chunk_index'' = Some (PInt j)"
  shows "\<forall>d \<in> set docs. \<exists>j. map_of (metadata d) ''chunk_index'' = Some (PInt j)"
  using assms
proof (induction articles arbitrary: acc)
  case Nil
  then show ?case by simp
next
  case (Cons a as)
  show ?case
  proof (cases "truthy (dict_get a ''text'' PNone)")
    case False
    then show ?thesis
      using Cons by simp
  next
    case True
    then obtain body where b: "dict_get a ''text'' PNone = PStr body"
      using Cons.prems(1) by (cases "dict_get a ''text'' PNone") simp_all
    let ?acc = "append_chunks (article_metadata a) 0 (split_text (clean_text body)) acc"
    have run: "process_loop split_text as ?acc = Inr docs"
      using Cons.prems(1) True b by simp
    have "?acc = acc @ append_chunks (article_metadata a) 0 (split_text (clean_text body)) []"
      by (rule append_chunks_acc)
    then have "\<forall>d \<in> set ?acc. \<exists>j. map_of (metadata d) ''chunk_index'' = Some (PInt j)"
      using Cons.prems(2) append_chunks_index_is_int by auto
    with run show ?thesis
      by (rule Cons.IH)
  qed
qed

lemma every_chunk_index_is_int:
  assumes "process_articles config splitter articles = Inr docs" and "d \<in> set docs"
  shows "\<exists>j. map_of (metadata d) ''chunk_index'' = Some (PInt j)"
  using process_loop_index_is_int[of "configured_splitter config splitter" articles "[]" docs] assms
  by (simp add: process_articles_def)

text \<open>
  C5. The chunks produced by \<open>process_articles\<close> are the concatenation of one group per
  input article, in input order; the texts of a group are the chunks the splitter returned
  for that article, in the splitter's order; and the \<open>chunk_index\<close> values of a group are
  0, 1, 2, ... without a gap.
\<close>

theorem process_articles_grouped_in_order:
  assumes "\<forall>article \<in> set articles. text_is_cleanable article"
  shows "\<exists>groups. process_articles config splitter articles = Inr (concat groups)
      \<and> length groups = length articles
      \<and> (\<forall>j < length articles.
           map page_content (groups ! j)
             = article_chunks (configured_splitter config splitter) (articles ! j)
         \<and> map (\<lambda>d. map_of (metadata d) ''chunk_index'') (groups ! j)
             = map (\<lambda>i. Some (PInt (int i))) [0..<length (groups ! j)])"
proof -
  let ?split = "configured_splitter config splitter"
  let ?groups = "map (article_documents ?split) articles"
  have "process_articles config splitter articles = Inr (concat ?groups)"
    using process_loop_concat[OF assms, of ?split "[]"] by (simp add: process_articles_def)
  moreover have "length ?groups = length articles"
    by simp
  moreover have "\<forall>j < length articles.
           map page_content (?groups ! j) = article_chunks ?split (articles ! j)
         \<and> map (\<lambda>d. map_of (metadata d) ''chunk_index'') (?groups ! j)
             = map (\<lambda>i. Some (PInt (int i))) [0..<length (?groups ! j)]"
    using chunk_index_append_chunks[of _ 0]
    by (simp add: article_documents_def page_content_append_chunks length_append_chunks)
  ultimately show ?thesis
    by blast
qed

theorem process_articles_grouped_in_order_witness:
  "\<exists>groups.
     process_articles \<lparr>chunk_size = None, chunk_overlap = None\<rparr> (\<lambda>n m t. [take 6 t, drop 6 t])
       [ [(''title'', PStr ''A''), (''text'', PStr ''Nifty  ends higher'')],
        [(''title'', PStr ''B'')],
        [(''title'', PStr ''C''), (''text'', PStr ''Sensex falls'')] ] = Inr (concat groups)
     \<and> length groups = length
       [ [(''title'', PStr ''A''), (''text'', PStr ''Nifty  ends higher'')],
        [(''title'', PStr ''B'')],
        [(''title'', PStr ''C''), (''text'', PStr ''Sensex falls'')] ]
     \<and> (\<forall>j < length
       [ [(''title'', PStr ''A''), (''text'', PStr ''Nifty  ends higher'')],
        [(''title'', PStr ''B'')],
        [(''title'', PStr ''C''), (''text'', PStr ''Sensex falls'')] ].
           map page_content (groups ! j)
             = article_chunks
                 (configured_splitter \<lparr>chunk_size = None, chunk_overlap = None\<rparr>
                    (\<lambda>n m t. [take 6 t, drop 6 t]))
                 ([ [(''title'', PStr ''A''), (''text'', PStr ''Nifty  ends higher'')],
                   [(''title'', PStr ''B'')],
                   [(''title'', PStr ''C''), (''text'', PStr ''Sensex falls'')] ] ! j)
         \<and> map (\<lambda>d. map_of (metadata d) ''chunk_index'') (groups ! j)
             = map (\<lambda>i. Some (PInt (int i))) [0..<length (groups ! j)])"
proof -
  have h: "\<forall>article \<in> set
       [ [(''title'', PStr ''A''), (''text'', PStr ''Nifty  ends higher'')],
        [(''title'', PStr ''B'')],
        [(''title'', PStr ''C''), (''text'', PStr ''Sensex falls'')] ]. text_is_cleanable article"
    by (simp add: text_is_cleanable_def dict_get_def)
  show ?thesis
    by (rule process_articles_grouped_in_order[OF h])
qed

text \<open>
  C2. Every value of a chunk's metadata is a string. The five fields copied from the article
  are strings, with \<open>N/A\<close> for an absent one; the \<open>chunk_index\<close> the loop adds is the
  integer loop counter, as the evaluation of \<open>process_articles\<close> on one article shows.
\<close>

theorem process_articles_chunk_index_not_a_string:
  "process_articles \<lparr>chunk_size = None, chunk_overlap = None\<rparr> (\<lambda>n m t. [t])
     [ [(''url'', PStr ''https://news.example/a1''), (''title'', PStr ''Sensex gains''),
       (''text'', PStr ''Markets rose''), (''source'', PStr ''Reuters''),
       (''section'', PStr ''/markets'')] ]
   = Inr [\<lparr>page_content = ''Markets rose'',
           metadata = [(''title'', PStr ''Sensex gains''), (''source'', PStr ''Reuters''),
                       (''url'', PStr ''https://news.example/a1''),
                       (''publish_date'', PStr ''N/A''), (''section'', PStr ''/markets''),
                       (''chunk_index'', PInt 0)]\<rparr>]
   \<and> \<not> is_str (PInt 0)"
  by (simp add: process_articles_def configured_splitter_def dict_get_def article_metadata_def
      clean_text_def strip_def is_space_def)

section \<open>Properties of the citation list\<close>

lemma url_dict_fold:
  assumes "\<forall>d \<in> set docs. url_of d \<noteq> None"
  shows "url_dict docs acc = Inr (fold (\<lambda>d a. AList.update (the (url_of d)) d a) docs acc)"
  using assms
proof (induction docs arbitrary: acc)
  case Nil
  show ?case by simp
next
  case (Cons d ds)
  then obtain u where u: "map_of (metadata d) ''url'' = Some u"
    by (auto simp: url_of_def)
  with Cons show ?case
    by (simp add: url_of_def)
qed

lemma fold_update_keys:
  "fst ` set (fold (\<lambda>d a. AList.update (the (url_of d)) d a) docs acc)
     = fst ` set acc \<union> (\<lambda>d. the (url_of d)) ` set docs"
proof (induction docs arbitrary: acc)
  case Nil
  show ?case by simp
next
  case (Cons d ds)
  show ?case
    unfolding fold_simps Cons.IH dom_update by auto
qed

lemma fold_update_distinct:
  "distinct (map fst acc) \<Longrightarrow>
     distinct (map fst (fold (\<lambda>d a. AList.update (the (url_of d)) d a) docs acc))"
proof (induction docs arbitrary: acc)
  case Nil
  then show ?case by simp
next
  case (Cons d ds)
  have "distinct (map fst (AList.update (the (url_of d)) d acc))"
    using Cons.prems by (rule distinct_update)
  then show ?case
    unfolding fold_simps by (rule Cons.IH)
qed

lemma fold_update_lookup:
  "map_of (fold (\<lambda>d a. AList.update (the (url_of d)) d a) docs acc) k
     = (if \<exists>d \<in> set docs. the (url_of d) = k
        then Some (last (filter (\<lambda>d. the (url_of d) = k) docs))
        else map_of acc k)"
proof (induction docs arbitrary: acc)
  case Nil
  show ?case by simp
next
  case (Cons d ds)
  show ?case
  proof (cases "\<exists>x \<in> set ds. the (url_of x) = k")
    case True
    then have "filter (\<lambda>d. the (url_of d) = k) ds \<noteq> []"
      by (simp add: filter_empty_conv)
    with True show ?thesis
      unfolding fold_simps Cons.IH by simp
  next
    case False
    then have "filter (\<lambda>d. the (url_of d) = k) ds = []"
      by (simp add: filter_empty_conv)
    with False show ?thesis
      unfolding fold_simps Cons.IH by (simp add: update_conv')
  qed
qed

lemma unique_sources_succeeds:
  assumes "\<forall>d \<in> set docs. url_of d \<noteq> None"
  shows "\<exists>uniq. unique_sources docs = Inr uniq"
  by (simp add: unique_sources_def url_dict_fold[OF assms])

text \<open>
  C1, as the code has it. For every sequence of source chunks that each carry a \<open>url\<close>, the
  citation list has exactly one entry per distinct URL, and the entry kept for a URL is the
  last chunk seen with that URL (so its title is the last-seen title, not the first-seen
  one).
\<close>

theorem citations_one_per_url_last_seen:
  assumes "\<forall>d \<in> set docs. url_of d \<noteq> None"
  shows "\<exists>uniq. unique_sources docs = Inr uniq
    \<and> distinct (map url_of uniq)
    \<and> set (map url_of uniq) = set (map url_of docs)
    \<and> length uniq = card (url_of ` set docs)
    \<and> (\<forall>c \<in> set uniq. c = last (filter (\<lambda>d. url_of d = url_of c) docs))"
proof -
  let ?key = "\<lambda>d. the (url_of d)"
  let ?r = "fold (\<lambda>d a. AList.update (?key d) d a) docs []"
  let ?uniq = "map snd ?r"
  have run: "unique_sources docs = Inr ?uniq"
    by (simp add: unique_sources_def url_dict_fold[OF assms])
  have some: "\<And>d. d \<in> set docs \<Longrightarrow> url_of d = Some (?key d)"
    using assms by auto
  have dist: "distinct (map fst ?r)"
    by (rule fold_update_distinct) simp
  have keys: "fst ` set ?r = ?key ` set docs"
    using fold_update_keys[of docs "[]"] by simp
  have entry: "d = last (filter (\<lambda>x. ?key x = k) docs)" "d \<in> set docs" "?key d = k"
    if "(k, d) \<in> set ?r" for k d
  proof -
    have "map_of ?r k = Some d"
      using dist that by simp
    moreover have "k \<in> ?key ` set docs"
      using that keys by force
    moreover have "map_of ?r k = (if \<exists>x \<in> set docs. ?key x = k
        then Some (last (filter (\<lambda>x. ?key x = k) docs)) else map_of [] k)"
      by (rule fold_update_lookup)
    ultimately have ex: "\<exists>x \<in> set docs. ?key x = k"
      and d: "d = last (filter (\<lambda>x. ?key x = k) docs)"
      by (auto split: if_splits)
    from ex have ne: "filter (\<lambda>x. ?key x = k) docs \<noteq> []"
      by (simp add: filter_empty_conv)
    from ne have "last (filter (\<lambda>x. ?key x = k) docs) \<in> set (filter (\<lambda>x. ?key x = k) docs)"
      by (rule last_in_set)
    with d show "d = last (filter (\<lambda>x. ?key x = k) docs)" "d \<in> set docs" "?key d = k"
      by simp_all
  qed
  have url_entry: "url_of (snd p) = Some (fst p)" if "p \<in> set ?r" for p
  proof -
    have "(fst p, snd p) \<in> set ?r"
      using that by simp
    then have "snd p \<in> set docs" "?key (snd p) = fst p"
      by (rule entry(2), rule entry(3))
    then show ?thesis
      using some[of "snd p"] by simp
  qed
  have urls: "map url_of ?uniq = map (\<lambda>p. Some (fst p)) ?r"
    using url_entry by simp
  have d1: "distinct (map url_of ?uniq)"
    unfolding urls using dist by (simp add: distinct_map inj_on_def)
  have s1: "set (map url_of ?uniq) = set (map url_of docs)"
  proof -
    have "set (map url_of ?uniq) = Some ` fst ` set ?r"
      unfolding urls by (simp add: image_image)
    also have "\<dots> = Some ` ?key ` set docs"
      by (simp only: keys)
    also have "\<dots> = url_of ` set docs"
      using some by (force simp: image_iff)
    finally show ?thesis by simp
  qed
  have l1: "length ?uniq = card (url_of ` set docs)"
  proof -
    have "length ?uniq = length (map url_of ?uniq)" by simp
    also have "\<dots> = card (set (map url_of ?uniq))"
      using d1 by (rule distinct_card[symmetric])
    finally show ?thesis using s1 by simp
  qed
  have last1: "\<forall>c \<in> set ?uniq. c = last (filter (\<lambda>d. url_of d = url_of c) docs)"
  proof
    fix c assume "c \<in> set ?uniq"
    then obtain k where kc: "(k, c) \<in> set ?r" by auto
    note e = entry[OF kc]
    have "filter (\<lambda>d. url_of d = url_of c) docs = filter (\<lambda>x. ?key x = k) docs"
    proof (rule filter_cong[OF refl])
      fix x assume "x \<in> set docs"
      then show "(url_of x = url_of c) = (?key x = k)"
        using some[of x] some[OF e(2)] e(3) by auto
    qed
    with e(1) show "c = last (filter (\<lambda>d. url_of d = url_of c) docs)" by simp
  qed
  from run d1 s1 l1 last1 show ?thesis by blast
qed


theorem citations_one_per_url_last_seen_witness:
  "\<exists>uniq. unique_sources
      [\<lparr>page_content = ''c1'', metadata = [(''url'', PStr ''A''), (''title'', PStr ''First'')]\<rparr>,
       \<lparr>page_content = ''c2'', metadata = [(''url'', PStr ''A''), (''title'', PStr ''Second'')]\<rparr>,
       \<lparr>page_content = ''c3'', metadata = [(''url'', PStr ''B''), (''title'', PStr ''Other'')]\<rparr>]
      = Inr uniq
    \<and> length uniq = 2
    \<and> distinct (map url_of uniq)"
proof -
  let ?docs =
     "[\<lparr>page_content = ''c1'', metadata = [(''url'', PStr ''A''), (''title'', PStr ''First'')]\<rparr>,
       \<lparr>page_content = ''c2'', metadata = [(''url'', PStr ''A''), (''title'', PStr ''Second'')]\<rparr>,
       \<lparr>page_content = ''c3'', metadata = [(''url'', PStr ''B''), (''title'', PStr ''Other'')]\<rparr>]"
  have h: "\<forall>d \<in> set ?docs. url_of d \<noteq> None"
    by (simp add: url_of_def)
  have c: "card (url_of ` set ?docs) = 2"
    by (simp add: url_of_def)
  from citations_one_per_url_last_seen[OF h] c show ?thesis
    by auto
qed

theorem citations_first_seen_counterexample:
  "unique_sources
      [\<lparr>page_content = ''c1'', metadata = [(''url'', PStr ''A''), (''title'', PStr ''First'')]\<rparr>,
       \<lparr>page_content = ''c2'', metadata = [(''url'', PStr ''A''), (''title'', PStr ''Second'')]\<rparr>]
     = Inr [\<lparr>page_content = ''c2'', metadata = [(''url'', PStr ''A''), (''title'', PStr ''Second'')]\<rparr>]
   \<and> format_sources 1
       [\<lparr>page_content = ''c2'', metadata = [(''url'', PStr ''A''), (''title'', PStr ''Second'')]\<rparr>] []
     = ''1. [Second](A)'' @ [newline]"
  by (simp add: unique_sources_def dict_get_def str_nat.simps digit_char_def)

section \<open>Properties of the streamed response\<close>

lemma consume_stream_acc:
  "consume_stream chunks yielded docs =
     (yielded @ List.map_filter chunk_answer chunks,
      docs @ concat (List.map_filter chunk_source_documents chunks))"
proof (induction chunks arbitrary: yielded docs)
  case Nil
  show ?case by (simp add: List.map_filter_simps)
next
  case (Cons c cs)
  show ?case
    by (cases "chunk_answer c"; cases "chunk_source_documents c")
       (simp_all add: Cons.IH List.map_filter_simps)
qed

lemma format_sources_acc:
  "format_sources i docs sources_text =
     sources_text @ concat (map2 citation_line [i..<i + length docs] docs)"
proof (induction docs arbitrary: i sources_text)
  case Nil
  show ?case by simp
next
  case (Cons d ds)
  have "i < i + length (d # ds)"
    by simp
  then have "[i..<i + length (d # ds)] = i # [Suc i..<i + length (d # ds)]"
    by (rule upt_conv_Cons)
  moreover have "i + length (d # ds) = Suc i + length ds"
    by simp
  ultimately have "[i..<i + length (d # ds)] = i # [Suc i..<Suc i + length ds]"
    by (simp only:)
  then show ?case
    by (simp add: Cons.IH citation_line_def Let_def)
qed

text \<open>\<open>stream_query\<close> on a request whose chain produces \<open>chunks\<close> and ends with
  \<open>failure\<close>.\<close>

lemma stream_query_unfold:
  assumes "astream (query_chain engine session_id sources) query = (chunks, failure)"
  shows "stream_query astream engine query session_id sources =
     (case failure of
        Some e \<Rightarrow>
          (fst (get_conversational_chain engine session_id (query_filters sources)),
           List.map_filter chunk_answer chunks, Some e)
      | None \<Rightarrow>
          if used_documents chunks = [] then
            (fst (get_conversational_chain engine session_id (query_filters sources)),
             List.map_filter chunk_answer chunks, None)
          else
            (case unique_sources (used_documents chunks) of
               Inl e \<Rightarrow>
                 (fst (get_conversational_chain engine session_id (query_filters sources)),
                  List.map_filter chunk_answer chunks, Some e)
             | Inr uniq \<Rightarrow>
                 (fst (get_conversational_chain engine session_id (query_filters sources)),
                  List.map_filter chunk_answer chunks @ [format_sources 1 uniq sources_header],
                  None)))"
proof -
  have a: "astream (snd (get_conversational_chain engine session_id (query_filters sources))) query
      = (chunks, failure)"
    using assms by (simp add: query_chain_def)
  show ?thesis
    unfolding stream_query_def Let_def case_prod_beta a
    by (simp add: consume_stream_acc used_documents_def split: option.split sum.split)
qed

text \<open>When the chain's stream ends with an exception, the increments already yielded stay
  yielded, no citation block follows, and the exception leaves \<open>stream_query\<close>.\<close>

lemma stream_query_propagates_failure:
  assumes "astream (query_chain engine session_id sources) query = (chunks, Some e)"
  shows "snd (stream_query astream engine query session_id sources)
     = (List.map_filter chunk_answer chunks, Some e)"
  using stream_query_unfold[of astream engine session_id sources query chunks "Some e",
      OF assms]
  by simp

text \<open>A query whose stream ends normally and whose source chunks all carry a \<open>url\<close>
  completes.\<close>

lemma stream_query_completes:
  assumes "astream (query_chain engine session_id sources) query = (chunks, None)"
    and "\<forall>d \<in> set (used_documents chunks). url_of d \<noteq> None"
  shows "\<exists>engine' yielded. stream_query astream engine query session_id sources
     = (engine', yielded, None)"
proof -
  obtain uniq where "unique_sources (used_documents chunks) = Inr uniq"
    using unique_sources_succeeds assms(2) by blast
  then show ?thesis
    using stream_query_unfold[of astream engine session_id sources query chunks None, OF assms(1)]
    by simp
qed

text \<open>
  C9. For every completed query, the concatenation of the streamed increments is the answer
  text, followed by nothing when no source chunk was reported, and otherwise by the
  separator and the numbered list of lines \<open>N. [title](url)\<close>, one per distinct URL,
  numbered from 1.
\<close>

theorem stream_query_output:
  assumes "astream (query_chain engine session_id sources) query = (chunks, failure)"
    and "stream_query astream engine query session_id sources = (engine', yielded, None)"
  shows "\<exists>citations. concat yielded = answer_text chunks @ citations
     \<and> (used_documents chunks = [] \<longrightarrow> citations = [])
     \<and> (used_documents chunks \<noteq> [] \<longrightarrow>
          (\<exists>uniq. unique_sources (used_documents chunks) = Inr uniq
             \<and> citations = sources_header
                 @ concat (map2 citation_line [1..<Suc (length uniq)] uniq)))"
proof (cases "used_documents chunks = []")
  note unfold = stream_query_unfold[of astream engine session_id sources query chunks failure,
      OF assms(1)]
  case True
  with assms(2) have "yielded = List.map_filter chunk_answer chunks"
    by (simp add: unfold split: option.splits)
  with True show ?thesis
    by (simp add: answer_text_def)
next
  note unfold = stream_query_unfold[of astream engine session_id sources query chunks failure,
      OF assms(1)]
  case False
  with assms(2) obtain uniq where u: "unique_sources (used_documents chunks) = Inr uniq"
    and y: "yielded = List.map_filter chunk_answer chunks @ [format_sources 1 uniq sources_header]"
    by (auto simp: unfold split: option.splits sum.splits)
  have "concat yielded = answer_text chunks @ sources_header
      @ concat (map2 citation_line [1..<Suc (length uniq)] uniq)"
    using format_sources_acc[of 1 uniq sources_header] by (simp add: y answer_text_def)
  with False u show ?thesis
    by simp
qed


theorem stream_query_output_witness:
  "\<exists>citations.
     concat (fst (snd (stream_query
       (\<lambda>c q. ([\<lparr>chunk_answer = Some ''Nifty '', chunk_source_documents = None\<rparr>,
                 \<lparr>chunk_answer = Some ''rose.'',
                  chunk_source_documents = Some
                    [\<lparr>page_content = ''c1'', metadata = [(''url'', PStr ''A''), (''title'', PStr ''First'')]\<rparr>,
                     \<lparr>page_content = ''c3'', metadata = [(''url'', PStr ''B'')]\<rparr>]\<rparr>], None))
       \<lparr>top_k = 4, retrieval_type = ''similarity'', conversational_memory = []\<rparr>
       ''How did Nifty do?'' ''s1'' None)))
     = ''Nifty rose.'' @ citations
     \<and> citations = sources_header @ ''1. [First](A)'' @ [newline]
          @ ''2. [Unknown Title](B)'' @ [newline]"
proof -
  let ?chunks = "[\<lparr>chunk_answer = Some ''Nifty '', chunk_source_documents = None\<rparr>,
                 \<lparr>chunk_answer = Some ''rose.'',
                  chunk_source_documents = Some
                    [\<lparr>page_content = ''c1'', metadata = [(''url'', PStr ''A''), (''title'', PStr ''First'')]\<rparr>,
                     \<lparr>page_content = ''c3'', metadata = [(''url'', PStr ''B'')]\<rparr>]\<rparr>]"
  let ?astream = "\<lambda>(c::chain) (q::string). (?chunks, None :: py_error option)"
  let ?engine = "\<lparr>top_k = 4, retrieval_type = ''similarity'', conversational_memory = []\<rparr>"
  let ?uniq = "[\<lparr>page_content = ''c1'', metadata = [(''url'', PStr ''A''), (''title'', PStr ''First'')]\<rparr>,
                \<lparr>page_content = ''c3'', metadata = [(''url'', PStr ''B'')]\<rparr>]"
  have h1: "?astream (query_chain ?engine ''s1'' None) ''How did Nifty do?'' = (?chunks, None)"
    by simp
  have h2: "stream_query ?astream ?engine ''How did Nifty do?'' ''s1'' None
      = (\<lparr>top_k = 4, retrieval_type = ''similarity'', conversational_memory = [(''s1'', [])]\<rparr>,
         [''Nifty '', ''rose.'', format_sources 1 ?uniq sources_header], None)"
    by (simp add: stream_query_def query_filters_def get_conversational_chain_def
        unique_sources_def)
  have used: "used_documents ?chunks = ?uniq"
    by (simp add: used_documents_def List.map_filter_simps)
  have uniq: "unique_sources ?uniq = Inr ?uniq"
    by (simp add: unique_sources_def)
  have ans: "answer_text ?chunks = ''Nifty rose.''"
    by (simp add: answer_text_def List.map_filter_simps)
  have lines: "concat (map2 citation_line [1..<Suc (length ?uniq)] ?uniq)
      = ''1. [First](A)'' @ [newline] @ ''2. [Unknown Title](B)'' @ [newline]"
    by (simp add: upt_rec citation_line_def dict_get_def str_nat.simps digit_char_def)
  from stream_query_output[OF h1 h2]
  obtain citations where c: "concat [''Nifty '', ''rose.'', format_sources 1 ?uniq sources_header]
      = answer_text ?chunks @ citations"
    and l: "citations = sources_header @ concat (map2 citation_line [1..<Suc (length ?uniq)] ?uniq)"
    unfolding used uniq by auto
  show ?thesis
    unfolding h2 using c l ans lines by simp
qed

section \<open>Properties of the source filter\<close>

lemma query_chain_kwargs:
  "retriever_kwargs (chain_retriever (query_chain engine session_id sources))
     = \<lparr>kw_k = top_k engine, kw_filter = query_filters sources\<rparr>"
  by (cases "query_filters sources")
     (simp_all add: query_chain_def get_conversational_chain_def Let_def)

lemma query_chain_session:
  "chain_session (query_chain engine session_id sources) = session_id"
  by (simp add: query_chain_def get_conversational_chain_def Let_def)

text \<open>The items of the chain's stream: the increments of the generative capability, then
  the retrieved chunks when the answer is complete.\<close>

lemma retrieval_chain_stream_items:
  assumes "generate (chain_session chain)
      (similarity_search distance (retriever_kwargs (chain_retriever chain)) entries question)
      question = (increments, failure)"
  shows "\<exists>chunks. retrieval_chain_stream distance generate entries chain question
        = (chunks, failure)
      \<and> List.map_filter chunk_answer chunks = increments
      \<and> used_documents chunks
          = (case failure of
               None \<Rightarrow> similarity_search distance (retriever_kwargs (chain_retriever chain))
                         entries question
             | Some e \<Rightarrow> [])"
proof -
  have answers: "List.map_filter chunk_answer
      (map (\<lambda>a. \<lparr>chunk_answer = Some a, chunk_source_documents = None\<rparr>) xs) = xs" for xs
    by (induction xs) (simp_all add: List.map_filter_simps)
  have no_docs: "List.map_filter chunk_source_documents
      (map (\<lambda>a. \<lparr>chunk_answer = Some a, chunk_source_documents = None\<rparr>) xs) = []" for xs
    by (induction xs) (simp_all add: List.map_filter_simps)
  have app: "List.map_filter f (xs @ ys) = List.map_filter f xs @ List.map_filter f ys"
    for f :: "stream_chunk \<Rightarrow> 'b option" and xs ys
    by (simp add: List.map_filter_def)
  show ?thesis
    unfolding retrieval_chain_stream_def Let_def assms case_prod_conv
    by (cases failure)
       (simp_all add: used_documents_def app answers no_docs List.map_filter_simps)
qed

text \<open>
  C7. When a non-empty list of sources is supplied, the retriever of the chain that
  \<open>stream_query\<close> runs carries the predicate ``\<open>source\<close> is one of them'', and every chunk
  it retrieves has a \<open>source\<close> in the list; when the argument is \<open>None\<close> or empty, the
  retriever carries no predicate and the search is the unrestricted top-k. The chunks so
  retrieved are the ones \<open>stream_query\<close> works with: its output is the increments the
  generative capability produces from them, followed by the citations of these chunks.
\<close>

theorem sources_filter_restricts_retrieval:
  "(sources = Some names \<and> names \<noteq> [] \<longrightarrow>
      kw_filter (retriever_kwargs (chain_retriever (query_chain engine session_id sources)))
        = Some (Where_In ''source'' names)
      \<and> (\<forall>d \<in> set (retrieved_chunks distance engine session_id sources entries question).
            \<exists>s \<in> set names. map_of (metadata d) ''source'' = Some (PStr s)))
   \<and> (sources = None \<or> sources = Some [] \<longrightarrow>
      kw_filter (retriever_kwargs (chain_retriever (query_chain engine session_id sources))) = None
      \<and> retrieved_chunks distance engine session_id sources entries question
         = take (nat (top_k engine)) (sort_key (distance question) entries))
   \<and> (generate session_id (retrieved_chunks distance engine session_id sources entries question)
        question = (increments, failure) \<longrightarrow>
      snd (stream_query (retrieval_chain_stream distance generate entries) engine question
             session_id sources)
        = (case failure of
             Some e \<Rightarrow> (increments, Some e)
           | None \<Rightarrow>
               if retrieved_chunks distance engine session_id sources entries question = []
               then (increments, None)
               else (case unique_sources
                            (retrieved_chunks distance engine session_id sources entries question) of
                       Inl e \<Rightarrow> (increments, Some e)
                     | Inr cited \<Rightarrow>
                         (increments @ [format_sources 1 cited sources_header], None))))"
proof (intro conjI impI)
  assume a: "sources = Some names \<and> names \<noteq> []"
  then show "kw_filter (retriever_kwargs (chain_retriever (query_chain engine session_id sources)))
        = Some (Where_In ''source'' names)"
    by (simp add: query_chain_kwargs query_filters_def)
  show "\<forall>d \<in> set (retrieved_chunks distance engine session_id sources entries question).
            \<exists>s \<in> set names. map_of (metadata d) ''source'' = Some (PStr s)"
  proof
    fix d
    assume "d \<in> set (retrieved_chunks distance engine session_id sources entries question)"
    then have "d \<in> set (sort_key (distance question)
        (filter (\<lambda>d. where_matches (Where_In ''source'' names) (metadata d)) entries))"
      using a by (auto simp: retrieved_chunks_def similarity_search_def query_chain_kwargs
          query_filters_def dest: in_set_takeD)
    then have "where_matches (Where_In ''source'' names) (metadata d)"
      by simp
    then show "\<exists>s \<in> set names. map_of (metadata d) ''source'' = Some (PStr s)"
      by (auto split: option.splits pyval.splits)
  qed
next
  assume a: "sources = None \<or> sources = Some []"
  then show "kw_filter (retriever_kwargs (chain_retriever (query_chain engine session_id sources)))
      = None"
    by (auto simp: query_chain_kwargs query_filters_def)
  from a show "retrieved_chunks distance engine session_id sources entries question
         = take (nat (top_k engine)) (sort_key (distance question) entries)"
    by (auto simp: retrieved_chunks_def similarity_search_def query_chain_kwargs query_filters_def)
next
  let ?chain = "query_chain engine session_id sources"
  let ?R = "retrieved_chunks distance engine session_id sources entries question"
  assume "generate session_id ?R question = (increments, failure)"
  then have gen: "generate (chain_session ?chain)
      (similarity_search distance (retriever_kwargs (chain_retriever ?chain)) entries question)
      question = (increments, failure)"
    by (simp only: query_chain_session retrieved_chunks_def)
  from retrieval_chain_stream_items[of generate ?chain distance entries question increments
      failure, OF gen]
  obtain chunks where run: "retrieval_chain_stream distance generate entries ?chain question
        = (chunks, failure)"
    and answers: "List.map_filter chunk_answer chunks = increments"
    and used: "used_documents chunks = (case failure of None \<Rightarrow> ?R | Some e \<Rightarrow> [])"
    unfolding retrieved_chunks_def by blast
  show "snd (stream_query (retrieval_chain_stream distance generate entries) engine question
             session_id sources)
        = (case failure of
             Some e \<Rightarrow> (increments, Some e)
           | None \<Rightarrow>
               if ?R = [] then (increments, None)
               else (case unique_sources ?R of
                       Inl e \<Rightarrow> (increments, Some e)
                     | Inr cited \<Rightarrow>
                         (increments @ [format_sources 1 cited sources_header], None)))"
    unfolding stream_query_unfold[of "retrieval_chain_stream distance generate entries"
        engine session_id sources question chunks failure, OF run]
    by (cases failure) (simp_all add: answers used split: sum.split)
qed

theorem sources_filter_restricts_retrieval_witness:
  "snd (stream_query
          (retrieval_chain_stream (\<lambda>q d. length (page_content d))
             (\<lambda>session docs q. (map page_content docs, None))
             [\<lparr>page_content = ''Fed holds rates'',
               metadata = [(''source'', PStr ''Bloomberg''), (''title'', PStr ''Fed''),
                           (''url'', PStr ''https://b.example/1'')]\<rparr>,
              \<lparr>page_content = ''Sensex up'',
               metadata = [(''source'', PStr ''Reuters''), (''title'', PStr ''Sensex''),
                           (''url'', PStr ''https://r.example/1'')]\<rparr>])
          \<lparr>top_k = 4, retrieval_type = ''similarity'', conversational_memory = []\<rparr>
          ''rates'' ''s1'' (Some [''Reuters'']))
     = ([''Sensex up'',
         sources_header @ ''1. [Sensex](https://r.example/1)'' @ [newline] ], None)
   \<and> Some (PStr ''Bloomberg'') \<notin> set (map (\<lambda>d. map_of (metadata d) ''source'')
        (retrieved_chunks (\<lambda>q d. length (page_content d))
           \<lparr>top_k = 4, retrieval_type = ''similarity'', conversational_memory = []\<rparr> ''s1''
           (Some [''Reuters''])
           [\<lparr>page_content = ''Fed holds rates'',
             metadata = [(''source'', PStr ''Bloomberg''), (''title'', PStr ''Fed''),
                         (''url'', PStr ''https://b.example/1'')]\<rparr>,
            \<lparr>page_content = ''Sensex up'',
             metadata = [(''source'', PStr ''Reuters''), (''title'', PStr ''Sensex''),
                         (''url'', PStr ''https://r.example/1'')]\<rparr>]
           ''rates''))
   \<and> snd (stream_query
          (retrieval_chain_stream (\<lambda>q d. length (page_content d))
             (\<lambda>session docs q. (map page_content docs, None))
             [\<lparr>page_content = ''Fed holds rates'',
               metadata = [(''source'', PStr ''Bloomberg''), (''title'', PStr ''Fed''),
                           (''url'', PStr ''https://b.example/1'')]\<rparr>,
              \<lparr>page_content = ''Sensex up'',
               metadata = [(''source'', PStr ''Reuters''), (''title'', PStr ''Sensex''),
                           (''url'', PStr ''https://r.example/1'')]\<rparr>])
          \<lparr>top_k = 4, retrieval_type = ''similarity'', conversational_memory = []\<rparr>
          ''rates'' ''s1'' None)
     = ([''Sensex up'', ''Fed holds rates'',
         sources_header @ ''1. [Sensex](https://r.example/1)'' @ [newline]
           @ ''2. [Fed](https://b.example/1)'' @ [newline] ], None)"
proof -
  define bloomberg where "bloomberg = \<lparr>page_content = ''Fed holds rates'',
               metadata = [(''source'', PStr ''Bloomberg''), (''title'', PStr ''Fed''),
                           (''url'', PStr ''https://b.example/1'')]\<rparr>"
  define reuters where "reuters = \<lparr>page_content = ''Sensex up'',
               metadata = [(''source'', PStr ''Reuters''), (''title'', PStr ''Sensex''),
                           (''url'', PStr ''https://r.example/1'')]\<rparr>"
  define engine where "engine = \<lparr>top_k = 4, retrieval_type = ''similarity'',
    conversational_memory = ([] :: (string \<times> (string \<times> string) list) list)\<rparr>"
  define distance where "distance = (\<lambda>(q::string) (d::document). length (page_content d))"
  define generate where "generate
      = (\<lambda>(session::string) (docs::document list) (q::string).
           (map page_content docs, None :: py_error option))"
  note inst = sources_filter_restricts_retrieval[where engine = engine and session_id = "''s1''"
      and distance = distance and entries = "[bloomberg, reuters]" and question = "''rates''"
      and generate = generate and failure = None]
  have filtered: "retrieved_chunks distance engine ''s1'' (Some [''Reuters''])
      [bloomberg, reuters] ''rates'' = [reuters]"
    by (simp add: retrieved_chunks_def similarity_search_def query_chain_kwargs query_filters_def
        engine_def distance_def bloomberg_def reuters_def)
  have unfiltered: "retrieved_chunks distance engine ''s1'' None
      [bloomberg, reuters] ''rates'' = [reuters, bloomberg]"
    by (simp add: retrieved_chunks_def similarity_search_def query_chain_kwargs query_filters_def
        engine_def distance_def bloomberg_def reuters_def)
  have gen1: "generate ''s1'' (retrieved_chunks distance engine ''s1'' (Some [''Reuters''])
      [bloomberg, reuters] ''rates'') ''rates'' = ([''Sensex up''], None)"
    unfolding generate_def filtered by (simp add: reuters_def)
  have gen2: "generate ''s1'' (retrieved_chunks distance engine ''s1'' None
      [bloomberg, reuters] ''rates'') ''rates'' = ([''Sensex up'', ''Fed holds rates''], None)"
    unfolding generate_def unfiltered by (simp add: reuters_def bloomberg_def)
  have cited1: "unique_sources [reuters] = Inr [reuters]"
    by (simp add: unique_sources_def reuters_def)
  have cited2: "unique_sources [reuters, bloomberg] = Inr [reuters, bloomberg]"
    by (simp add: unique_sources_def reuters_def bloomberg_def)
  have text1: "format_sources 1 [reuters] sources_header
      = sources_header @ ''1. [Sensex](https://r.example/1)'' @ [newline]"
    by (simp add: reuters_def dict_get_def str_nat.simps digit_char_def)
  have text2: "format_sources 1 [reuters, bloomberg] sources_header
      = sources_header @ ''1. [Sensex](https://r.example/1)'' @ [newline]
           @ ''2. [Fed](https://b.example/1)'' @ [newline]"
    by (simp add: reuters_def bloomberg_def dict_get_def str_nat.simps digit_char_def)
  have r1: "snd (stream_query (retrieval_chain_stream distance generate [bloomberg, reuters])
        engine ''rates'' ''s1'' (Some [''Reuters'']))
      = ([''Sensex up'', sources_header @ ''1. [Sensex](https://r.example/1)'' @ [newline] ], None)"
    using inst[where sources = "Some [''Reuters'']" and names = "[''Reuters'']"
        and increments = "[''Sensex up'']", THEN conjunct2, THEN conjunct2, THEN mp, OF gen1]
    by (simp only: filtered cited1 text1 option.case sum.case list.distinct if_False append.simps)
  have r3: "snd (stream_query (retrieval_chain_stream distance generate [bloomberg, reuters])
        engine ''rates'' ''s1'' None)
      = ([''Sensex up'', ''Fed holds rates'',
          sources_header @ ''1. [Sensex](https://r.example/1)'' @ [newline]
           @ ''2. [Fed](https://b.example/1)'' @ [newline] ], None)"
    using inst[where sources = None and names = "[]"
        and increments = "[''Sensex up'', ''Fed holds rates'']",
        THEN conjunct2, THEN conjunct2, THEN mp, OF gen2]
    by (simp only: unfiltered cited2 text2 option.case sum.case list.distinct if_False append.simps)
  have r2: "Some (PStr ''Bloomberg'') \<notin> set (map (\<lambda>d. map_of (metadata d) ''source'')
        (retrieved_chunks distance engine ''s1'' (Some [''Reuters'']) [bloomberg, reuters] ''rates''))"
    unfolding filtered by (simp add: reuters_def)
  show ?thesis
    using r1 r2 r3
    unfolding bloomberg_def reuters_def engine_def distance_def generate_def
    by (rule conjI[OF _ conjI])
qed

section \<open>Properties of the index statistics\<close>

lemma source_values_all_present:
  assumes "\<forall>meta \<in> set metadatas. meta \<noteq> None"
  shows "source_values metadatas = Inr (read_sources metadatas)"
  using assms
proof (induction metadatas)
  case Nil
  show ?case by (simp add: read_sources_def List.map_filter_simps)
next
  case (Cons m ms)
  then obtain d where "m = Some d"
    by auto
  with Cons show ?case
    by (simp add: read_sources_def List.map_filter_simps)
qed

lemma source_values_some_absent:
  assumes "\<exists>meta \<in> set metadatas. meta = None"
  shows "source_values metadatas = Inl AttributeError"
  using assms
proof (induction metadatas)
  case Nil
  then show ?case by simp
next
  case (Cons m ms)
  show ?case
  proof (cases m)
    case None
    then show ?thesis by simp
  next
    case (Some d)
    with Cons show ?thesis by simp
  qed
qed

lemma strs_are_PStr:
  "list_all is_str xs \<Longrightarrow> map PStr (map py_str xs) = xs"
proof (induction xs)
  case Nil
  show ?case by simp
next
  case (Cons x xs)
  then show ?case by (cases x) simp_all
qed

lemma ints_are_PInt:
  "list_all is_int xs \<Longrightarrow> map PInt (map int_of xs) = xs"
proof (induction xs)
  case Nil
  show ?case by simp
next
  case (Cons x xs)
  then show ?case by (cases x) simp_all
qed

lemma py_str_inj_on_strs:
  "list_all is_str xs \<Longrightarrow> inj_on py_str (set xs)"
proof (rule inj_onI)
  fix a b
  assume all: "list_all is_str xs" and a: "a \<in> set xs" and b: "b \<in> set xs"
    and eq: "py_str a = py_str b"
  from all a b have "is_str a" "is_str b"
    by (simp_all add: list_all_iff)
  with eq show "a = b"
    by (cases a; cases b) simp_all
qed

lemma int_of_inj_on_ints:
  "list_all is_int xs \<Longrightarrow> inj_on int_of (set xs)"
proof (rule inj_onI)
  fix a b
  assume all: "list_all is_int xs" and a: "a \<in> set xs" and b: "b \<in> set xs"
    and eq: "int_of a = int_of b"
  from all a b have "is_int a" "is_int b"
    by (simp_all add: list_all_iff)
  with eq show "a = b"
    by (cases a; cases b) simp_all
qed

lemma sorted_wrt_py_le_strs: "sorted_wrt py_le (map PStr ys) = sorted ys"
  by (simp add: sorted_wrt_map)

lemma sorted_wrt_py_le_ints: "sorted_wrt py_le (map PInt ys) = sorted ys"
  by (simp add: sorted_wrt_map)

text \<open>What \<open>sorted\<close> returns on distinct values it can sort.\<close>

lemma py_sorted_sortable:
  assumes "sortable xs" and "distinct xs"
  shows "\<exists>ys. py_sorted xs = Inr ys \<and> sorted_wrt py_le ys \<and> distinct ys \<and> set ys = set xs"
proof (cases "length xs \<le> 1")
  case True
  then have "xs = [] \<or> (\<exists>x. xs = [x])"
    by (cases xs) auto
  then have "sorted_wrt py_le xs"
    by auto
  moreover have "py_sorted xs = Inr xs"
    using True by (simp add: py_sorted_def)
  ultimately show ?thesis
    using assms(2) by simp
next
  case False
  have "card (set xs) = length xs"
    using assms(2) by (rule distinct_card)
  with False assms(1) have typed: "list_all is_str xs \<or> list_all is_int xs"
    by (simp add: sortable_def)
  show ?thesis
  proof (cases "list_all is_str xs")
    case True
    let ?ys = "map PStr (sort (map py_str xs))"
    have "py_sorted xs = Inr ?ys"
      using False True by (simp add: py_sorted_def)
    moreover have "sorted_wrt py_le ?ys"
      by (simp only: sorted_wrt_py_le_strs) simp
    moreover have "distinct ?ys"
      using assms(2) py_str_inj_on_strs[OF True] by (simp add: distinct_map inj_on_def)
    moreover have "set ?ys = set xs"
    proof -
      have "set (map PStr (map py_str xs)) = set xs"
        by (simp only: strs_are_PStr[OF True])
      then have "PStr ` py_str ` set xs = set xs"
        by (simp only: set_map)
      then show ?thesis
        by simp
    qed
    ultimately show ?thesis
      by blast
  next
    case no_str: False
    with typed have ints: "list_all is_int xs"
      by simp
    let ?ys = "map PInt (sort (map int_of xs))"
    have "py_sorted xs = Inr ?ys"
      using False no_str ints by (simp add: py_sorted_def)
    moreover have "sorted_wrt py_le ?ys"
      by (simp only: sorted_wrt_py_le_ints) simp
    moreover have "distinct ?ys"
      using assms(2) int_of_inj_on_ints[OF ints] by (simp add: distinct_map inj_on_def)
    moreover have "set ?ys = set xs"
    proof -
      have "set (map PInt (map int_of xs)) = set xs"
        by (simp only: ints_are_PInt[OF ints])
      then have "PInt ` int_of ` set xs = set xs"
        by (simp only: set_map)
      then show ?thesis
        by simp
    qed
    ultimately show ?thesis
      by blast
  qed
qed

lemma py_sorted_unsortable:
  assumes "\<not> sortable xs" and "distinct xs"
  shows "py_sorted xs = Inl TypeError"
proof -
  have "card (set xs) = length xs"
    using assms(2) by (rule distinct_card)
  then show ?thesis
    using assms(1) by (simp add: sortable_def py_sorted_def)
qed

lemma sortable_remdups: "sortable (remdups xs) = sortable xs"
  by (simp add: sortable_def list_all_iff)

text \<open>The zero result is returned exactly when the query raises.\<close>

lemma get_db_stats_stored:
  "get_db_stats (Stored metadatas) =
     (if (\<forall>meta \<in> set metadatas. meta \<noteq> None) \<and> sortable (read_sources metadatas)
      then \<lparr>total_documents = int (length metadatas),
            stats_sources = (case py_sorted (remdups (read_sources metadatas)) of
                               Inr ys \<Rightarrow> ys | Inl e \<Rightarrow> [])\<rparr>
      else \<lparr>total_documents = 0, stats_sources = []\<rparr>)"
proof (cases "\<forall>meta \<in> set metadatas. meta \<noteq> None")
  case False
  then have "source_values metadatas = Inl AttributeError"
    using source_values_some_absent[of metadatas] by auto
  then have zero: "get_db_stats (Stored metadatas) = \<lparr>total_documents = 0, stats_sources = []\<rparr>"
    by (simp add: get_db_stats_def db_stats_query_def)
  from False
  have raises: "\<not> ((\<forall>meta \<in> set metadatas. meta \<noteq> None) \<and> sortable (read_sources metadatas))"
    by blast
  show ?thesis
    by (simp only: zero if_not_P[OF raises])
next
  case True
  note vals = source_values_all_present[OF True]
  show ?thesis
  proof (cases "sortable (read_sources metadatas)")
    case sortable: True
    then obtain ys where "py_sorted (remdups (read_sources metadatas)) = Inr ys"
      using py_sorted_sortable[of "remdups (read_sources metadatas)"]
      by (auto simp: sortable_remdups)
    with True sortable show ?thesis
      by (simp add: get_db_stats_def db_stats_query_def vals)
  next
    case unsortable: False
    then have "py_sorted (remdups (read_sources metadatas)) = Inl TypeError"
      using py_sorted_unsortable[of "remdups (read_sources metadatas)"]
      by (simp add: sortable_remdups)
    then have zero: "get_db_stats (Stored metadatas) = \<lparr>total_documents = 0, stats_sources = []\<rparr>"
      by (simp add: get_db_stats_def db_stats_query_def vals)
    from unsortable
    have raises: "\<not> ((\<forall>meta \<in> set metadatas. meta \<noteq> None) \<and> sortable (read_sources metadatas))"
      by blast
    show ?thesis
      by (simp only: zero if_not_P[OF raises])
  qed
qed




lemma read_sources_set:
  "set (read_sources metadatas)
     = {dict_get d ''source'' (PStr ''Unknown'') | d. Some d \<in> set metadatas}"
proof (induction metadatas)
  case Nil
  show ?case by (simp add: read_sources_def List.map_filter_simps)
next
  case (Cons m ms)
  show ?case
  proof (cases m)
    case None
    with Cons show ?thesis
      by (simp add: read_sources_def List.map_filter_simps)
  next
    case (Some d)
    with Cons show ?thesis
      by (auto simp: read_sources_def List.map_filter_simps)
  qed
qed

lemma read_sources_strs:
  "list_all is_str (read_sources metadatas)
     = (\<forall>d v. Some d \<in> set metadatas \<and> map_of d ''source'' = Some v \<longrightarrow> is_str v)"
proof
  assume all: "list_all is_str (read_sources metadatas)"
  show "\<forall>d v. Some d \<in> set metadatas \<and> map_of d ''source'' = Some v \<longrightarrow> is_str v"
  proof (intro allI impI)
    fix d v
    assume dv: "Some d \<in> set metadatas \<and> map_of d ''source'' = Some v"
    then have "dict_get d ''source'' (PStr ''Unknown'') = v"
      by (simp add: dict_get_def)
    moreover have "dict_get d ''source'' (PStr ''Unknown'') \<in> set (read_sources metadatas)"
      using dv unfolding read_sources_set by blast
    ultimately show "is_str v"
      using all by (auto simp: list_all_iff)
  qed
next
  assume strs: "\<forall>d v. Some d \<in> set metadatas \<and> map_of d ''source'' = Some v \<longrightarrow> is_str v"
  have "\<forall>x \<in> set (read_sources metadatas). is_str x"
  proof
    fix x
    assume "x \<in> set (read_sources metadatas)"
    then obtain d where d: "Some d \<in> set metadatas" and x: "x = dict_get d ''source'' (PStr ''Unknown'')"
      unfolding read_sources_set by blast
    show "is_str x"
    proof (cases "map_of d ''source''")
      case None
      then show ?thesis by (simp add: x dict_get_def)
    next
      case (Some v)
      with strs d have "is_str v" by blast
      with Some show ?thesis by (simp add: x dict_get_def)
    qed
  qed
  then show "list_all is_str (read_sources metadatas)"
    by (simp add: list_all_iff)
qed

lemma sortable_with_a_string:
  assumes "PStr u \<in> set xs"
  shows "sortable xs = list_all is_str xs"
proof
  assume "sortable xs"
  then consider "card (set xs) \<le> 1" | "list_all is_str xs" | "list_all is_int xs"
    by (auto simp: sortable_def)
  then show "list_all is_str xs"
  proof cases
    case 1
    then have "\<forall>a \<in> set xs. \<forall>b \<in> set xs. a = b"
      by (simp add: card_le_Suc0_iff_eq)
    with assms have "\<forall>a \<in> set xs. a = PStr u"
      by blast
    then show ?thesis
      by (auto simp: list_all_iff)
  next
    case 2
    then show ?thesis .
  next
    case 3
    with assms have "is_int (PStr u)"
      by (auto simp: list_all_iff)
    then show ?thesis
      by simp
  qed
next
  assume "list_all is_str xs"
  then show "sortable xs"
    by (simp add: sortable_def)
qed

text \<open>
  C10, as the code has it. For an index with an entry whose metadata has no \<open>source\<close> key,
  the returned list of sources contains \<open>Unknown\<close> exactly when every stored entry has a
  metadata dictionary and every \<open>source\<close> value present is a string; otherwise the query
  raises and the list is empty.
\<close>

theorem get_db_stats_reports_unknown:
  assumes "Some d \<in> set metadatas" and "map_of d ''source'' = None"
  shows "PStr ''Unknown'' \<in> set (stats_sources (get_db_stats (Stored metadatas)))
     \<longleftrightarrow> (\<forall>meta \<in> set metadatas. meta \<noteq> None)
          \<and> (\<forall>d v. Some d \<in> set metadatas \<and> map_of d ''source'' = Some v \<longrightarrow> is_str v)"
proof -
  have "dict_get d ''source'' (PStr ''Unknown'') = PStr ''Unknown''"
    using assms(2) by (simp add: dict_get_def)
  with assms(1) have unknown: "PStr ''Unknown'' \<in> set (read_sources metadatas)"
    unfolding read_sources_set by force
  have strs: "sortable (read_sources metadatas)
      = (\<forall>d v. Some d \<in> set metadatas \<and> map_of d ''source'' = Some v \<longrightarrow> is_str v)"
    by (simp only: sortable_with_a_string[OF unknown] read_sources_strs)
  show ?thesis
  proof (cases "(\<forall>meta \<in> set metadatas. meta \<noteq> None) \<and> sortable (read_sources metadatas)")
    case True
    then obtain ys where ys: "py_sorted (remdups (read_sources metadatas)) = Inr ys"
      and elems: "set ys = set (remdups (read_sources metadatas))"
      using py_sorted_sortable[of "remdups (read_sources metadatas)"]
      by (auto simp: sortable_remdups)
    have "stats_sources (get_db_stats (Stored metadatas)) = ys"
      using True ys by (simp add: get_db_stats_stored)
    then have "PStr ''Unknown'' \<in> set (stats_sources (get_db_stats (Stored metadatas)))"
      using unknown elems by simp
    with True show ?thesis
      unfolding strs by blast
  next
    case False
    have "get_db_stats (Stored metadatas) = \<lparr>total_documents = 0, stats_sources = []\<rparr>"
      by (simp only: get_db_stats_stored if_not_P[OF False])
    then have "PStr ''Unknown'' \<notin> set (stats_sources (get_db_stats (Stored metadatas)))"
      by simp
    with False show ?thesis
      unfolding strs by blast
  qed
qed

theorem get_db_stats_reports_unknown_witness:
  "PStr ''Unknown'' \<in> set (stats_sources (get_db_stats (Stored
      [Some [(''source'', PStr ''Reuters'')], Some [(''title'', PStr ''T'')] ])))
   \<and> PStr ''Unknown'' \<notin> set (stats_sources (get_db_stats (Stored
      [Some [(''title'', PStr ''T'')], None])))"
proof -
  let ?ok = "[Some [(''source'', PStr ''Reuters'')], Some [(''title'', PStr ''T'')] ]"
  let ?bad = "[Some [(''title'', PStr ''T'')], None]"
  have lacks_ok: "Some [(''title'', PStr ''T'')] \<in> set ?ok"
    by simp
  have lacks_bad: "Some [(''title'', PStr ''T'')] \<in> set ?bad"
    by simp
  have lacks: "map_of [(''title'', PStr ''T'')] ''source'' = None"
    by simp
  have ok: "(\<forall>meta \<in> set ?ok. meta \<noteq> None)
      \<and> (\<forall>d v. Some d \<in> set ?ok \<and> map_of d ''source'' = Some v \<longrightarrow> is_str v)"
  proof (intro conjI allI impI)
    show "\<forall>meta \<in> set ?ok. meta \<noteq> None"
      by simp
  next
    fix d v
    assume dv: "Some d \<in> set ?ok \<and> map_of d ''source'' = Some v"
    then have "d = [(''source'', PStr ''Reuters'')] \<or> d = [(''title'', PStr ''T'')]"
      by simp
    then show "is_str v"
    proof
      assume "d = [(''source'', PStr ''Reuters'')]"
      with dv have "v = PStr ''Reuters''"
        by simp
      then show ?thesis
        by simp
    next
      assume "d = [(''title'', PStr ''T'')]"
      with dv show ?thesis
        by simp
    qed
  qed
  have "\<not> (\<forall>meta \<in> set ?bad. meta \<noteq> None)"
    by simp
  then have bad: "\<not> ((\<forall>meta \<in> set ?bad. meta \<noteq> None)
      \<and> (\<forall>d v. Some d \<in> set ?bad \<and> map_of d ''source'' = Some v \<longrightarrow> is_str v))"
    by (rule contrapos_nn) (rule conjunct1)
  have included: "PStr ''Unknown'' \<in> set (stats_sources (get_db_stats (Stored ?ok)))"
    by (rule get_db_stats_reports_unknown[OF lacks_ok lacks, THEN iffD2, OF ok])
  have excluded: "PStr ''Unknown'' \<notin> set (stats_sources (get_db_stats (Stored ?bad)))"
    by (rule contrapos_nn[OF bad get_db_stats_reports_unknown[OF lacks_bad lacks, THEN iffD1] ])
  show ?thesis
    by (rule conjI[OF included excluded])
qed

theorem get_db_stats_unknown_counterexample:
  "map_of [(''title'', PStr ''T'')] ''source'' = None
   \<and> PStr ''Unknown'' \<notin> set (stats_sources (get_db_stats (Stored
        [Some [(''title'', PStr ''T'')], Some [(''source'', PInt 5)] ])))
   \<and> PStr ''Unknown'' \<notin> set (stats_sources (get_db_stats (Stored
        [Some [(''title'', PStr ''T'')], None])))"
  by (simp add: get_db_stats_def db_stats_query_def dict_get_def py_sorted_def)

section \<open>Properties of the scraper\<close>

lemma scrape_urls_acc:
  "scrape_urls w source_name section urls acc
     = acc @ List.map_filter (url_article w source_name section) urls"
proof (induction urls arbitrary: acc)
  case Nil
  show ?case by (simp add: List.map_filter_simps)
next
  case (Cons u us)
  show ?case
    by (cases "extract_article_content w u")
       (simp_all add: Cons.IH List.map_filter_simps url_article_def)
qed

lemma fetch_links_usable:
  "driver_usable w (snd (fetch_links w source_config s url)) = driver_usable w s"
proof (cases "selenium_driver s")
  case None
  then show ?thesis
    by (cases "chrome w")
       (simp_all add: fetch_links_def setup_selenium_def driver_usable_def)
next
  case (Some d)
  then show ?thesis
    by (cases d) (simp_all add: fetch_links_def setup_selenium_def driver_usable_def)
qed

lemma fetch_links_result:
  "(case fst (fetch_links w source_config s url) of Inl e \<Rightarrow> None | Inr links \<Rightarrow> Some links)
     = (case (if requires_selenium source_config then
                (if driver_usable w s then selenium_page w url else Inl WebDriverException)
              else requests_page w url) of
          Inl e \<Rightarrow> None
        | Inr links \<Rightarrow> Some links)"
proof (cases "selenium_driver s")
  case None
  then show ?thesis
    by (cases "chrome w")
       (simp_all add: fetch_links_def setup_selenium_def driver_usable_def)
next
  case (Some d)
  then show ?thesis
    by (cases d) (simp_all add: fetch_links_def setup_selenium_def driver_usable_def)
qed

lemma scrape_sections_step:
  assumes "urljoin w base section = Inr section_url"
  shows "scrape_sections w source_name source_config base (section # rest) s acc
     = scrape_sections w source_name source_config base rest
         (snd (fetch_links w source_config s section_url))
         (acc @ section_articles w source_name source_config (driver_usable w s) base section)"
proof -
  define page where "page = (if requires_selenium source_config then
      (if driver_usable w s then selenium_page w section_url else Inl WebDriverException)
    else requests_page w section_url)"
  obtain r s' where run: "fetch_links w source_config s section_url = (r, s')"
    by (cases "fetch_links w source_config s section_url")
  have res: "(case r of Inl e \<Rightarrow> None | Inr links \<Rightarrow> Some links)
     = (case page of Inl e \<Rightarrow> None | Inr links \<Rightarrow> Some links)"
    using fetch_links_result[of w source_config s section_url] run
    by (simp add: page_def)
  have cand: "section_candidates w source_config (driver_usable w s) base section
     = (case page of
          Inl e \<Rightarrow> None
        | Inr links \<Rightarrow>
            (case collect_urls w base links [] of
               Inl e \<Rightarrow> None
             | Inr unique_urls \<Rightarrow> Some (take 7 (set_order w unique_urls))))"
    by (simp add: section_candidates_def page_def assms)
  show ?thesis
  proof (cases r)
    case (Inl e)
    with res have "section_candidates w source_config (driver_usable w s) base section = None"
      unfolding cand by (cases page) simp_all
    with run Inl show ?thesis
      by (simp add: section_articles_def assms)
  next
    case (Inr links)
    with res have page: "page = Inr links"
      by (cases page) simp_all
    show ?thesis
    proof (cases "collect_urls w base links []")
      case failed: (Inl e)
      then have "section_candidates w source_config (driver_usable w s) base section = None"
        unfolding cand by (simp add: page)
      with run Inr failed show ?thesis
        by (simp add: section_articles_def assms)
    next
      case collected: (Inr unique_urls)
      then have "section_candidates w source_config (driver_usable w s) base section
          = Some (take 7 (set_order w unique_urls))"
        unfolding cand by (simp add: page)
      with run Inr collected show ?thesis
        by (simp add: section_articles_def scrape_urls_acc assms)
    qed
  qed
qed

text \<open>An exception of \<open>urljoin\<close> on a section path is outside the \<open>try\<close>: it ends
  \<open>_scrape_source\<close>, whatever was collected.\<close>

lemma scrape_sections_section_url_raises:
  assumes "urljoin w base section = Inl e"
  shows "scrape_sections w source_name source_config base (section # rest) s acc = (Inl e, s)"
  using assms by simp

lemma scrape_sections_concat:
  assumes "\<forall>section \<in> set section_list. \<exists>section_url. urljoin w base section = Inr section_url"
  shows "fst (scrape_sections w source_name source_config base section_list s acc)
     = Inr (acc @ concat (map (section_articles w source_name source_config (driver_usable w s)
                                 base) section_list))
   \<and> driver_usable w (snd (scrape_sections w source_name source_config base section_list s acc))
     = driver_usable w s"
  using assms
proof (induction section_list arbitrary: s acc)
  case Nil
  show ?case by simp
next
  case (Cons sec rest)
  from Cons.prems obtain section_url where url: "urljoin w base sec = Inr section_url"
    by auto
  from Cons.prems
  have rest: "\<forall>section \<in> set rest. \<exists>section_url. urljoin w base section = Inr section_url"
    by simp
  show ?case
    unfolding scrape_sections_step[OF url]
    using Cons.IH[OF rest, of "snd (fetch_links w source_config s section_url)"
        "acc @ section_articles w source_name source_config (driver_usable w s) base sec"]
    by (simp add: fetch_links_usable)
qed

lemma scrape_source_concat:
  assumes "scrape_enabled source_config"
    and "base_url source_config = Some base" and "sections source_config = Some section_list"
    and "\<forall>section \<in> set section_list. \<exists>section_url. urljoin w base section = Inr section_url"
  shows "fst (scrape_source w source_name source_config s)
      = Inr (source_articles w (driver_usable w s) (source_name, source_config))
    \<and> driver_usable w (snd (scrape_source w source_name source_config s)) = driver_usable w s"
  using scrape_sections_concat[OF assms(4), of source_name source_config s "[]"] assms(1)
  by (simp add: scrape_source_def source_articles_def assms(2,3))

lemma scrape_sources_concat:
  assumes "well_configured w source_list"
  shows "fst (scrape_sources w source_list s acc)
      = Inr (acc @ concat (map (source_articles w (driver_usable w s)) source_list))"
  using assms
proof (induction source_list arbitrary: s acc)
  case Nil
  show ?case by simp
next
  case (Cons entry rest)
  obtain source_name source_config where e: "entry = (source_name, source_config)"
    by (cases entry)
  have rest: "well_configured w rest"
    using Cons.prems by (simp add: well_configured_def)
  show ?case
  proof (cases "scrape_enabled source_config")
    case False
    then show ?thesis
      using Cons.IH[OF rest, of s acc] by (simp add: e source_articles_def)
  next
    case True
    with Cons.prems obtain base section_list where b: "base_url source_config = Some base"
      and l: "sections source_config = Some section_list"
      and j: "\<forall>section \<in> set section_list. \<exists>section_url.
                urljoin w base section = Inr section_url"
      by (auto simp: well_configured_def e)
    obtain r s' where run: "scrape_source w source_name source_config s = (r, s')"
      by (cases "scrape_source w source_name source_config s")
    have r: "r = Inr (source_articles w (driver_usable w s) (source_name, source_config))"
      and u: "driver_usable w s' = driver_usable w s"
      using scrape_source_concat[OF True b l j, of source_name s] run by simp_all
    show ?thesis
      using Cons.IH[OF rest, of s'
          "acc @ source_articles w (driver_usable w s) (source_name, source_config)"]
      by (simp add: e True run r u)
  qed
qed

text \<open>
  C8. Whatever the downloads, parses and validations of the articles give, and whichever
  section pages fail to load, a run over a configuration that itself raises nothing (every
  enabled source has its \<open>base_url\<close> and \<open>sections\<close>, and \<open>urljoin\<close> accepts the base URL
  with each section path) returns normally, and its result is the concatenation, source by
  source and section by section, of what each candidate URL contributes: a failed article
  contributes nothing and a failed section contributes nothing, and neither changes what the
  other articles, sections and sources contribute.
\<close>

theorem scrape_all_isolates_failures:
  assumes "news_sources s = Some source_list" and "well_configured w source_list"
  shows "fst (scrape_all w s)
     = Inr (concat (map (source_articles w (driver_usable w s)) source_list))"
proof -
  have "fst (scrape_sources w source_list s [])
      = Inr (concat (map (source_articles w (driver_usable w s)) source_list))"
    using scrape_sources_concat[OF assms(2), of s "[]"] by simp
  moreover obtain r s' where "scrape_sources w source_list s [] = (r, s')"
    by (cases "scrape_sources w source_list s []")
  ultimately show ?thesis
    using assms(1) by (simp add: scrape_all_def)
qed

theorem scrape_all_isolates_failures_witness:
  "map (\<lambda>a. (map_of a ''url'', map_of a ''source'', map_of a ''section''))
     (case fst (scrape_all
        \<lparr>chrome = None, selenium_page = (\<lambda>u. Inl FetchError),
         requests_page = (\<lambda>u. if u = ''https://a.example/markets''
                                then Inr [''/news/1'', ''/news/2''] else Inl FetchError),
         urljoin = (\<lambda>b h. Inr (b @ h)),
         newspaper = (\<lambda>u. if u = ''https://a.example/news/2''
                            then Inr \<lparr>parsed_title = ''Stock market'',
                                      parsed_text = ''Sensex and Nifty up '' @ replicate 300 CHR ''.'',
                                      parsed_publish_date = None\<rparr>
                            else Inl ParseError),
         set_order = rev, now = ''2024-01-01T00:00:00''\<rparr>
        \<lparr>news_sources = Some
           [(''a'', \<lparr>base_url = Some ''https://a.example'', sections = Some [''/broken'', ''/markets''],
                    requires_selenium = False, scrape_enabled = True\<rparr>),
            (''b'', \<lparr>base_url = Some ''https://b.example'', sections = Some [''/economy''],
                    requires_selenium = True, scrape_enabled = True\<rparr>)],
         selenium_driver = None\<rparr>) of
        Inr articles \<Rightarrow> articles
      | Inl e \<Rightarrow> [])
   = [(Some (PStr ''https://a.example/news/2''), Some (PStr ''a''), Some (PStr ''/markets''))]"
proof -
  define w where "w = \<lparr>chrome = None, selenium_page = (\<lambda>u. Inl FetchError),
         requests_page = (\<lambda>u. if u = ''https://a.example/markets''
                                then Inr [''/news/1'', ''/news/2''] else Inl FetchError),
         urljoin = (\<lambda>b h. Inr (b @ h)),
         newspaper = (\<lambda>u. if u = ''https://a.example/news/2''
                            then Inr \<lparr>parsed_title = ''Stock market'',
                                      parsed_text = ''Sensex and Nifty up '' @ replicate 300 CHR ''.'',
                                      parsed_publish_date = None\<rparr>
                            else Inl ParseError),
         set_order = rev, now = ''2024-01-01T00:00:00''\<rparr>"
  define source_list where "source_list =
           [(''a'', \<lparr>base_url = Some ''https://a.example'', sections = Some [''/broken'', ''/markets''],
                    requires_selenium = False, scrape_enabled = True\<rparr>),
            (''b'', \<lparr>base_url = Some ''https://b.example'', sections = Some [''/economy''],
                    requires_selenium = True, scrape_enabled = True\<rparr>)]"
  define s where "s = \<lparr>news_sources = Some source_list, selenium_driver = None\<rparr>"
  have h1: "news_sources s = Some source_list"
    by (simp add: s_def)
  have h2: "well_configured w source_list"
    by (simp add: well_configured_def source_list_def w_def)
  have run: "fst (scrape_all w s)
      = Inr (concat (map (source_articles w (driver_usable w s)) source_list))"
    by (rule scrape_all_isolates_failures[OF h1 h2])
  have result: "map (\<lambda>a. (map_of a ''url'', map_of a ''source'', map_of a ''section''))
        (concat (map (source_articles w (driver_usable w s)) source_list))
      = [(Some (PStr ''https://a.example/news/2''), Some (PStr ''a''), Some (PStr ''/markets''))]"
    unfolding w_def source_list_def s_def
    by (simp add: source_articles_def section_articles_def section_candidates_def
        url_article_def extract_article_content_def driver_usable_def List.map_filter_simps
        example_text_is_relevant[simplified] article_like_def str_in_def sublist_code prefix_code
        is_digit_def)
  have "map (\<lambda>a. (map_of a ''url'', map_of a ''source'', map_of a ''section''))
        (case fst (scrape_all w s) of Inr articles \<Rightarrow> articles | Inl e \<Rightarrow> [])
      = [(Some (PStr ''https://a.example/news/2''), Some (PStr ''a''), Some (PStr ''/markets''))]"
    using run result by simp
  then show ?thesis
    unfolding w_def source_list_def s_def .
qed


text \<open>On its normal exit \<open>scrape_all\<close> leaves no driver running.\<close>

lemma scrape_all_releases_on_normal_exit:
  assumes "scrape_all w s = (Inr all_articles, s')"
  shows "selenium_driver s' \<noteq> Some Running"
  using assms
  by (auto simp: scrape_all_def split: option.splits prod.splits sum.splits if_splits)

text \<open>
  C3. A driver acquired during scraping is released on every exit path of \<open>scrape_all\<close>.
  The release is the last statement of the method and is not in a \<open>finally\<close>: when a later
  source raises (here the second source has no \<open>base_url\<close>), \<open>scrape_all\<close> ends with the
  exception and the driver started for the first source is still running.
\<close>

theorem scrape_all_leaks_driver_on_error:
  "scrape_all
     \<lparr>chrome = None, selenium_page = (\<lambda>u. Inr []), requests_page = (\<lambda>u. Inr []),
      urljoin = (\<lambda>b h. Inr (b @ h)), newspaper = (\<lambda>u. Inl ParseError), set_order = (\<lambda>us. us),
      now = ''2024-01-01T00:00:00''\<rparr>
     \<lparr>news_sources = Some
        [(''moneycontrol'',
          \<lparr>base_url = Some ''https://www.moneycontrol.com'', sections = Some [''/news/business/''],
           requires_selenium = True, scrape_enabled = True\<rparr>),
         (''livemint'',
          \<lparr>base_url = None, sections = Some [''/market''],
           requires_selenium = False, scrape_enabled = True\<rparr>)],
      selenium_driver = None\<rparr>
   = (Inl KeyError,
      \<lparr>news_sources = Some
        [(''moneycontrol'',
          \<lparr>base_url = Some ''https://www.moneycontrol.com'', sections = Some [''/news/business/''],
           requires_selenium = True, scrape_enabled = True\<rparr>),
         (''livemint'',
          \<lparr>base_url = None, sections = Some [''/market''],
           requires_selenium = False, scrape_enabled = True\<rparr>)],
      selenium_driver = Some Running\<rparr>)"
  by (simp add: scrape_all_def scrape_source_def fetch_links_def setup_selenium_def)

end
